theory Spec2Isabelle
  imports Complex_Main
begin

section \<open>fm96: an FM stereo multiplex encoder (src/fm96.c)\<close>

text \<open>
  The program reads blocks of interleaved stereo audio, runs every channel sample through a
  preemphasis filter and a low-pass filter, and mixes the two filtered channels with a
  19 kHz pilot, its second harmonic and an optional external multiplex signal into one
  composite block, which it writes to the playback device.

  Conventions of the embedding.
  \<^item> A C \<open>float\<close> is modelled by the real number it denotes. Every arithmetic
    operation of \<open>main\<close> rounds its exact result as IEEE 754 single precision does, to
    nearest, ties to even: to 24 significant bits in the normal range and to a multiple of
    2^-149 below it (gradual underflow). Overflow, infinities, NaN and the sign of zero are
    outside the model: its values are the finite ones.
  \<^item> The float variables of \<open>main\<close> whose addresses are handed to the DSP objects at
    construction are cells of an explicit store, named by \<open>var\<close>.
  \<^item> The PulseAudio calls are answered by an environment: one \<open>tick\<close> for every
    iteration of the streaming loop.
  \<^item> Text printed on stdout is not modelled; the messages on stderr are.
\<close>

type_synonym float = real

subsection \<open>Single-precision arithmetic\<close>

definition round_half_even :: "real \<Rightarrow> int" where
  "round_half_even y =
     (let f = \<lfloor>y\<rfloor>
      in if y - of_int f < 1 / 2 then f
         else if y - of_int f > 1 / 2 then f + 1
         else if even f then f else f + 1)"

text \<open>The binary exponent of a nonzero number, and the spacing of the single-precision
  numbers around it: the weight of the last of 24 significant bits, but never less than
  2^-149, the spacing of the subnormal numbers below 2^-126.\<close>

definition exponent :: "real \<Rightarrow> int" where
  "exponent x = \<lfloor>log 2 \<bar>x\<bar>\<rfloor>"

definition ulp :: "real \<Rightarrow> real" where
  "ulp x = 2 powr (of_int (max (exponent x) (- 126)) - 23)"

text \<open>Rounding to single precision; a literal such as \<open>0.45f\<close> is \<open>single 0.45\<close>.\<close>

definition single :: "real \<Rightarrow> float" where
  "single x = (if x = 0 then 0 else of_int (round_half_even (x / ulp x)) * ulp x)"

definition fadd :: "float \<Rightarrow> float \<Rightarrow> float" where
  "fadd x y = single (x + y)"

definition fsub :: "float \<Rightarrow> float \<Rightarrow> float" where
  "fsub x y = single (x - y)"

definition fmul :: "float \<Rightarrow> float \<Rightarrow> float" where
  "fmul x y = single (x * y)"

definition fdiv :: "float \<Rightarrow> float \<Rightarrow> float" where
  "fdiv x y = single (x / y)"

subsection \<open>Constants and globals (lines 9--25)\<close>

definition BUFFER_SIZE :: nat where
  "BUFFER_SIZE = 768"

text \<open>The float variables of \<open>main\<close> that are bound to DSP objects by address
  (lines 134--148).\<close>

datatype var =
    Pilot_sample
  | Lpf_preemp_l | Lpf_preemp_r
  | Lpf_out_l | Lpf_out_r
  | Preemp_input_l | Preemp_input_r

type_synonym store = "var \<Rightarrow> float"

subsection \<open>The DSP library (dsp.h)\<close>

text \<open>
  The header \<open>dsp.h\<close> is not part of the sources. Its objects and functions are modelled
  from sections 3, 4.1, 4.2 and 7 of the specification, in the exact arithmetic in which
  the specification states them; the argument order (object, input cell, output cell,
  parameters) is the one of the calls in \<open>main\<close>.
\<close>

datatype construction_error =
    Nonpositive_frequency_or_rate
  | Cutoff_not_below_nyquist
  | Nonpositive_time_constant

record Oscillator =
  phase :: float
  frequency :: float
  osc_rate :: float
  osc_out :: var

text \<open>Modelled from the spec: dsp.h is missing. The phase is kept within one cycle.\<close>

definition wrap_phase :: "float \<Rightarrow> float" where
  "wrap_phase x = x - 2 * pi * of_int \<lfloor>x / (2 * pi)\<rfloor>"

text \<open>Modelled from the spec: dsp.h is missing. Section 7: a non-positive frequency or
  sample rate is a construction failure; section 4.1: the phase starts at t = 0.\<close>

definition init_sine_oscillator :: "var \<Rightarrow> float \<Rightarrow> float \<Rightarrow> construction_error + Oscillator" where
  "init_sine_oscillator out f rate =
     (if f \<le> 0 \<or> rate \<le> 0 then Inl Nonpositive_frequency_or_rate
      else Inr \<lparr>phase = 0, frequency = f, osc_rate = rate, osc_out = out\<rparr>)"

text \<open>Modelled from the spec: dsp.h is missing. Section 4.1: \<open>evaluate(harmonic)\<close>
  returns sin(harmonic * phase) without changing the phase; the result is stored in the
  cell bound at construction.\<close>

definition compute_sine_oscillator_sin_multiplier :: "Oscillator \<Rightarrow> float \<Rightarrow> store \<Rightarrow> store" where
  "compute_sine_oscillator_sin_multiplier osc k m = m(osc_out osc := sin (k * phase osc))"

definition compute_sine_oscillator_sin :: "Oscillator \<Rightarrow> store \<Rightarrow> store" where
  "compute_sine_oscillator_sin osc m = compute_sine_oscillator_sin_multiplier osc 1 m"

text \<open>Modelled from the spec: dsp.h is missing. Section 4.1: \<open>advance()\<close> moves the phase
  forward by 2 pi frequency / sample_rate, modulo one cycle.\<close>

definition advance_sine_oscillator :: "Oscillator \<Rightarrow> Oscillator" where
  "advance_sine_oscillator osc =
     osc\<lparr>phase := wrap_phase (phase osc + 2 * pi * frequency osc / osc_rate osc)\<rparr>"

record coefficients =
  b0 :: float
  b1 :: float
  b2 :: float
  a1 :: float
  a2 :: float

record BiquadFilter =
  coeffs :: coefficients
  x1 :: float
  x2 :: float
  y1 :: float
  y2 :: float
  bq_in :: var
  bq_out :: var

text \<open>Modelled from the spec: dsp.h is missing. Section 4.2:
  y = b0 x + b1 x1 + b2 x2 - a1 y1 - a2 y2.\<close>

definition biquad_output :: "BiquadFilter \<Rightarrow> float \<Rightarrow> float" where
  "biquad_output f x =
     b0 (coeffs f) * x + b1 (coeffs f) * x1 f + b2 (coeffs f) * x2 f
       - a1 (coeffs f) * y1 f - a2 (coeffs f) * y2 f"

text \<open>Modelled from the spec: dsp.h is missing. Section 4.2: \<open>apply\<close> computes y, then
  shifts the delay line; the input is read from, and the output written to, the cells
  bound at construction.\<close>

definition apply_biquad :: "BiquadFilter \<Rightarrow> store \<Rightarrow> BiquadFilter \<times> store" where
  "apply_biquad f m =
     (let x = m (bq_in f);
          y = biquad_output f x
      in (f\<lparr>x2 := x1 f, x1 := x, y2 := y1 f, y1 := y\<rparr>, m(bq_out f := y)))"

text \<open>The specification names the two filter designs but gives no formulas for their
  coefficients, so the designs are parameters of the model.\<close>

record designer =
  lowpass_design :: "float \<Rightarrow> float \<Rightarrow> float \<Rightarrow> coefficients"
  preemphasis_design :: "float \<Rightarrow> float \<Rightarrow> coefficients"

text \<open>Modelled from the spec: dsp.h is missing. Sections 4.2 and 7: a cutoff at or above
  the Nyquist frequency is a construction failure.\<close>

definition init_lpf ::
  "designer \<Rightarrow> var \<Rightarrow> var \<Rightarrow> float \<Rightarrow> float \<Rightarrow> float \<Rightarrow> construction_error + BiquadFilter" where
  "init_lpf D inp out cutoff q rate =
     (if cutoff \<ge> rate / 2 then Inl Cutoff_not_below_nyquist
      else Inr \<lparr>coeffs = lowpass_design D cutoff q rate,
                x1 = 0, x2 = 0, y1 = 0, y2 = 0, bq_in = inp, bq_out = out\<rparr>)"

text \<open>Modelled from the spec: dsp.h is missing. Sections 4.2 and 7: a non-positive time
  constant is a construction failure.\<close>

definition init_preemphasis ::
  "designer \<Rightarrow> var \<Rightarrow> var \<Rightarrow> float \<Rightarrow> float \<Rightarrow> construction_error + BiquadFilter" where
  "init_preemphasis D inp out tau rate =
     (if tau \<le> 0 then Inl Nonpositive_time_constant
      else Inr \<lparr>coeffs = preemphasis_design D tau rate,
                x1 = 0, x2 = 0, y1 = 0, y2 = 0, bq_in = inp, bq_out = out\<rparr>)"

subsection \<open>uninterleave (lines 27--32)\<close>

text \<open>The arrays are lists; the loop writes \<open>left[i]\<close> and \<open>right[i]\<close> for every
  \<open>i < num_samples / 2\<close>. In \<open>main\<close> the input holds \<open>2 * BUFFER_SIZE\<close> values and both
  outputs \<open>BUFFER_SIZE + 64\<close>, so every access is in range.\<close>

definition uninterleave ::
  "float list \<Rightarrow> float list \<Rightarrow> float list \<Rightarrow> nat \<Rightarrow> float list \<times> float list" where
  "uninterleave input left right num_samples =
     fold (\<lambda>i (l, r). (l[i := input ! (i * 2)], r[i := input ! (i * 2 + 1)]))
          [0..<num_samples div 2] (left, right)"

subsection \<open>The state of main\<close>

text \<open>The messages on stderr. \<open>Getopt_message\<close> is the line \<open>getopt_long\<close> prints
  itself for an option it rejects (\<open>opterr\<close> is never cleared); the others are the
  \<open>fprintf\<close> calls of \<open>main\<close>. The usage text of \<open>-h\<close> goes to stdout, which
  is not modelled.\<close>

datatype diagnostic =
    Getopt_message
  | Pa_simple_new_failed
  | Error_reading_from_input_device
  | Error_reading_from_MPX_device
  | Error_writing_to_output_device

record machine =
  running :: bool
  pilot :: Oscillator
  lpf_l :: BiquadFilter
  lpf_r :: BiquadFilter
  preemp_l :: BiquadFilter
  preemp_r :: BiquadFilter
  mem :: store
  audio_stereo_input :: "float list"
  left :: "float list"
  right :: "float list"
  mpx_in :: "float list"
  output_buf :: "float list"
  played :: "float list list"
  stderr :: "diagnostic list"

subsection \<open>One sample (lines 174--195)\<close>

text \<open>Lines 187--195. The parameter \<open>stereo\<close> is the \<open>int stereo\<close> of line 41; the
  \<open>float stereo\<close> declared at line 188 hides it for the rest of the loop body, as the inner
  binding does here.\<close>

definition composite :: "int \<Rightarrow> float \<Rightarrow> float \<Rightarrow> float \<Rightarrow> float \<Rightarrow> float \<Rightarrow> float" where
  "composite stereo lpf_out_l lpf_out_r pilot_s stereo_carrier mpx =
     (let mono = fdiv (fadd lpf_out_l lpf_out_r) (single 2);
          stereo = fdiv (fsub lpf_out_l lpf_out_r) (single 2);
          out = (if stereo \<noteq> 0
                 then fadd (fadd (fmul mono (single 0.45)) (fmul pilot_s (single 0.09)))
                           (fmul (fmul stereo stereo_carrier) (single 0.45))
                 else mono)
      in fadd out mpx)"

definition sample_step :: "int \<Rightarrow> nat \<Rightarrow> machine \<Rightarrow> machine" where
  "sample_step stereo i s =
     (let m1 = compute_sine_oscillator_sin (pilot s) (mem s);
          pilot_s = m1 Pilot_sample;
          m2 = compute_sine_oscillator_sin_multiplier (pilot s) 2 m1;
          stereo_carrier = m2 Pilot_sample;
          pilot' = advance_sine_oscillator (pilot s);
          m3 = m2(Preemp_input_l := left s ! i);
          m4 = m3(Preemp_input_r := right s ! i);
          (preemp_l', m5) = apply_biquad (preemp_l s) m4;
          (preemp_r', m6) = apply_biquad (preemp_r s) m5;
          (lpf_l', m7) = apply_biquad (lpf_l s) m6;
          (lpf_r', m8) = apply_biquad (lpf_r s) m7
      in s\<lparr>pilot := pilot', preemp_l := preemp_l', preemp_r := preemp_r',
            lpf_l := lpf_l', lpf_r := lpf_r', mem := m8,
            output_buf := (output_buf s)[i := composite stereo (m8 Lpf_out_l) (m8 Lpf_out_r)
                                        pilot_s stereo_carrier (mpx_in s ! i)]\<rparr>)"

subsection \<open>The environment of the streaming loop\<close>

text \<open>
  The stop signal (SIGINT or SIGTERM) can arrive at any point of an iteration; a \<open>tick\<close>
  says where it arrives, if it does, and how the three PulseAudio calls of the iteration
  answer. A successful read fills the whole array, element \<open>i\<close> with the value the
  environment's block has at \<open>i\<close>.
\<close>

datatype point =
    At_input_read
  | At_mpx_read
  | At_sample nat
  | At_output_write
  | At_loop_end

record tick =
  input_read :: "(nat \<Rightarrow> float) option"
  mpx_read :: "(nat \<Rightarrow> float) option"
  output_write :: bool
  stop_signal :: "point option"

text \<open>Lines 21--25: the handler clears the global flag.\<close>

definition stop :: "machine \<Rightarrow> machine" where
  "stop s = s\<lparr>running := False\<rparr>"

definition deliver :: "tick \<Rightarrow> point \<Rightarrow> machine \<Rightarrow> machine" where
  "deliver t p s = (if stop_signal t = Some p then stop s else s)"

subsection \<open>One block (lines 159--202)\<close>

text \<open>Lines 173--196: the loop over the samples of the block.\<close>

definition process_block :: "int \<Rightarrow> tick \<Rightarrow> machine \<Rightarrow> machine" where
  "process_block stereo t s =
     fold (\<lambda>i s. sample_step stereo i (deliver t (At_sample i) s)) [0..<BUFFER_SIZE] s"

text \<open>Line 159: \<open>pa_simple_read\<close> on the input device; \<open>None\<close> is a negative result.\<close>

definition read_input :: "tick \<Rightarrow> machine \<Rightarrow> machine option" where
  "read_input t s =
     (case input_read t of
        None \<Rightarrow> None
      | Some blk \<Rightarrow>
          Some (s\<lparr>audio_stereo_input := map blk [0..<length (audio_stereo_input s)]\<rparr>))"

text \<open>Lines 164--170: the external multiplex device is read only when its name is not
  empty.\<close>

definition read_mpx :: "string \<Rightarrow> tick \<Rightarrow> machine \<Rightarrow> machine option" where
  "read_mpx audio_mpx_device t s =
     (if length audio_mpx_device \<noteq> 0
      then (case mpx_read t of
              None \<Rightarrow> None
            | Some blk \<Rightarrow> Some (s\<lparr>mpx_in := map blk [0..<length (mpx_in s)]\<rparr>))
      else Some s)"

text \<open>Line 198: \<open>pa_simple_write\<close> of the whole output array; the blocks the device
  accepted are collected in \<open>played\<close>.\<close>

definition write_output :: "tick \<Rightarrow> machine \<Rightarrow> machine option" where
  "write_output t s =
     (if output_write t then Some (s\<lparr>played := played s @ [output_buf s]\<rparr>) else None)"

text \<open>The three error exits: a message on stderr, \<open>running = 0\<close>, \<open>break\<close>.\<close>

definition fail :: "diagnostic \<Rightarrow> machine \<Rightarrow> machine" where
  "fail d s = s\<lparr>stderr := stderr s @ [d], running := False\<rparr>"

text \<open>Lines 159--171: both reads and \<open>uninterleave\<close>. \<open>Inl\<close> is an error exit, with its
  message and the state it is taken in.\<close>

definition fetch_block :: "string \<Rightarrow> tick \<Rightarrow> machine \<Rightarrow> (diagnostic \<times> machine) + machine" where
  "fetch_block audio_mpx_device t s =
     (case read_input t (deliver t At_input_read s) of
        None \<Rightarrow> Inl (Error_reading_from_input_device, deliver t At_input_read s)
      | Some s1 \<Rightarrow>
          (case read_mpx audio_mpx_device t (deliver t At_mpx_read s1) of
             None \<Rightarrow> Inl (Error_reading_from_MPX_device, deliver t At_mpx_read s1)
           | Some s2 \<Rightarrow>
               (let (l, r) = uninterleave (audio_stereo_input s2) (left s2) (right s2)
                               (BUFFER_SIZE * 2)
                in Inr (s2\<lparr>left := l, right := r\<rparr>))))"

text \<open>The body of the \<open>while\<close> loop. The first component of the result tells whether the
  body left the loop by \<open>break\<close>.\<close>

definition iteration :: "int \<Rightarrow> string \<Rightarrow> tick \<Rightarrow> machine \<Rightarrow> bool \<times> machine" where
  "iteration stereo audio_mpx_device t s =
     (case fetch_block audio_mpx_device t s of
        Inl (d, s1) \<Rightarrow> (True, fail d s1)
      | Inr s2 \<Rightarrow>
          (let s3 = process_block stereo t s2;
               s4 = deliver t At_output_write s3
           in case write_output t s4 of
                None \<Rightarrow> (True, fail Error_writing_to_output_device s4)
              | Some s5 \<Rightarrow> (False, deliver t At_loop_end s5)))"

subsection \<open>The streaming loop (lines 158--203)\<close>

text \<open>
  The loop runs for as long as the environment keeps answering, so the environment is a
  finite list of ticks and the result says whether the loop has stopped within it
  (\<open>Stopped\<close>: the code after the loop is reached) or is still waiting for the device
  when the list ends (\<open>Pending\<close>).
\<close>

datatype loop_state = Stopped | Pending

fun stream_loop :: "int \<Rightarrow> string \<Rightarrow> machine \<Rightarrow> tick list \<Rightarrow> loop_state \<times> machine" where
  "stream_loop stereo audio_mpx_device s [] = (if running s then (Pending, s) else (Stopped, s))"
| "stream_loop stereo audio_mpx_device s (t # ts) =
     (if \<not> running s then (Stopped, s)
      else (case iteration stereo audio_mpx_device t s of
              (True, s') \<Rightarrow> (Stopped, s')
            | (False, s') \<Rightarrow> stream_loop stereo audio_mpx_device s' ts))"

subsection \<open>main (lines 38--209)\<close>

text \<open>The options as \<open>getopt_long\<close> returns them, the argument of \<open>-s\<close> and \<open>-S\<close>
  already converted by \<open>atoi\<close>. \<open>Opt_unknown\<close> is the \<open>'?'\<close> returned for an option
  that is not in the option string or lacks its argument.\<close>

datatype cli_option =
    Opt_s int
  | Opt_S int
  | Opt_i string
  | Opt_o string
  | Opt_m string
  | Opt_h
  | Opt_unknown

record config =
  cfg_stereo :: int
  sample_rate :: int
  audio_input_device :: string
  audio_output_device :: string
  audio_mpx_device :: string

text \<open>Lines 9 and 41--44.\<close>

definition default_config :: config where
  "default_config =
     \<lparr>cfg_stereo = 1, sample_rate = 192000, audio_input_device = ''default'',
      audio_output_device = ''default'', audio_mpx_device = []\<rparr>"

text \<open>Lines 58--87, with what has been printed on stderr so far. \<open>Inl 0\<close> is the
  \<open>return 0\<close> of \<open>-h\<close>. The \<open>switch\<close> has no case for \<open>'?'\<close>: the loop goes on
  after \<open>getopt_long\<close> has printed its message.\<close>

fun getopt_loop :: "config \<Rightarrow> diagnostic list \<Rightarrow> cli_option list
                      \<Rightarrow> (int + config) \<times> diagnostic list" where
  "getopt_loop c err [] = (Inr c, err)"
| "getopt_loop c err (Opt_s n # os) = getopt_loop (c\<lparr>cfg_stereo := n\<rparr>) err os"
| "getopt_loop c err (Opt_S n # os) = getopt_loop (c\<lparr>sample_rate := n\<rparr>) err os"
| "getopt_loop c err (Opt_i d # os) = getopt_loop (c\<lparr>audio_input_device := d\<rparr>) err os"
| "getopt_loop c err (Opt_o d # os) = getopt_loop (c\<lparr>audio_output_device := d\<rparr>) err os"
| "getopt_loop c err (Opt_m d # os) = getopt_loop (c\<lparr>audio_mpx_device := d\<rparr>) err os"
| "getopt_loop c err (Opt_h # os) = (Inl 0, err)"
| "getopt_loop c err (Opt_unknown # os) = getopt_loop c (err @ [Getopt_message]) os"

text \<open>The cells and arrays of \<open>main\<close> are not initialised at their declaration: what
  they hold before the first assignment is given by the environment.\<close>

record uninitialised =
  junk_mem :: store
  junk_audio_stereo_input :: "nat \<Rightarrow> float"
  junk_left :: "nat \<Rightarrow> float"
  junk_right :: "nat \<Rightarrow> float"
  junk_output :: "nat \<Rightarrow> float"

record world =
  open_output :: bool
  open_input :: bool
  open_mpx :: bool
  stack :: uninitialised
  early_stop :: bool
  ticks :: "tick list"

text \<open>The two ways in which \<open>main\<close> ends before the loop: a device that does not
  open (a \<open>return 1\<close> with its message), and a constructor that rejects its
  arguments.\<close>

datatype early_end =
    Device_failed "diagnostic list"
  | Construction_failure construction_error

text \<open>Modelled from the spec: dsp.h is missing. Section 7: a configuration error is
  detected at construction and reported at once as a construction failure, which is
  fatal: the program ends in the constructor that rejects its arguments, and the
  statement after the call is reached only with the constructed object. (Lines 136--148
  call the constructors as statements: \<open>main\<close> has no test of its own.)\<close>

definition construct :: "construction_error + 'a \<Rightarrow> ('a \<Rightarrow> early_end + 'b) \<Rightarrow> early_end + 'b" where
  "construct r rest = (case r of Inl e \<Rightarrow> Inl (Construction_failure e) | Inr obj \<Rightarrow> rest obj)"

text \<open>Lines 107--157: the devices are opened, the DSP objects constructed, the handlers
  installed and the arrays declared. \<open>Inr\<close> is the state in which the loop condition is
  tested for the first time (\<open>early_stop\<close>: the signal has arrived between lines 152 and
  158), with the messages printed from line 107 on.\<close>

definition main_setup :: "designer \<Rightarrow> world \<Rightarrow> config \<Rightarrow> early_end + machine" where
  "main_setup D w c =
     (if \<not> open_output w then Inl (Device_failed [Pa_simple_new_failed])
      else if \<not> open_input w then Inl (Device_failed [Pa_simple_new_failed])
      else if length (audio_mpx_device c) \<noteq> 0 \<and> \<not> open_mpx w
      then Inl (Device_failed [Pa_simple_new_failed])
      else
        construct (init_sine_oscillator Pilot_sample 19000 (of_int (sample_rate c)))
          (\<lambda>pilot0.
        construct (init_lpf D Lpf_preemp_l Lpf_out_l 15000 5 (of_int (sample_rate c)))
          (\<lambda>lpf_l0.
        construct (init_lpf D Lpf_preemp_r Lpf_out_r 15000 5 (of_int (sample_rate c)))
          (\<lambda>lpf_r0.
        construct (init_preemphasis D Preemp_input_l Lpf_preemp_l (50 / 1000000)
                     (of_int (sample_rate c)))
          (\<lambda>preemp_l0.
        construct (init_preemphasis D Preemp_input_r Lpf_preemp_r (50 / 1000000)
                     (of_int (sample_rate c)))
          (\<lambda>preemp_r0.
             Inr \<lparr>running = \<not> early_stop w,
                  pilot = pilot0, lpf_l = lpf_l0, lpf_r = lpf_r0,
                  preemp_l = preemp_l0, preemp_r = preemp_r0,
                  mem = junk_mem (stack w),
                  audio_stereo_input =
                    map (junk_audio_stereo_input (stack w)) [0..<BUFFER_SIZE * 2],
                  left = map (junk_left (stack w)) [0..<BUFFER_SIZE + 64],
                  right = map (junk_right (stack w)) [0..<BUFFER_SIZE + 64],
                  mpx_in = replicate BUFFER_SIZE 0,
                  output_buf = map (junk_output (stack w)) [0..<BUFFER_SIZE],
                  played = [],
                  stderr = []\<rparr>))))))"

text \<open>The whole program: how it ends, the blocks it has played and what it has printed
  on stderr, the messages of \<open>getopt_long\<close> first. \<open>Fatal\<close> is the end in a
  constructor; what a constructor prints there is not modelled.\<close>

datatype ending = Returned int | Blocked | Fatal construction_error

definition main :: "designer \<Rightarrow> world \<Rightarrow> cli_option list \<Rightarrow> ending \<times> float list list \<times> diagnostic list" where
  "main D w argv =
     (case getopt_loop default_config [] argv of
        (Inl code, err) \<Rightarrow> (Returned code, [], err)
      | (Inr c, err) \<Rightarrow>
          (case main_setup D w c of
             Inl (Device_failed msgs) \<Rightarrow> (Returned 1, [], err @ msgs)
           | Inl (Construction_failure e) \<Rightarrow> (Fatal e, [], err)
           | Inr s0 \<Rightarrow>
               (case stream_loop (cfg_stereo c) (audio_mpx_device c) s0 (ticks w) of
                  (Stopped, s) \<Rightarrow> (Returned 0, played s, err @ stderr s)
                | (Pending, s) \<Rightarrow> (Blocked, played s, err @ stderr s))))"

section \<open>Notions used in the statements\<close>

text \<open>The multiplexer as section 4.3 of the specification words it, with the stereo-enabled
  flag deciding the branch. It is compared with \<open>composite\<close>, which is the code.\<close>

definition spec_composite :: "bool \<Rightarrow> float \<Rightarrow> float \<Rightarrow> float \<Rightarrow> float \<Rightarrow> float \<Rightarrow> float" where
  "spec_composite stereo_enabled L R pilot_s subcarrier external_mpx_sample =
     (let mono = (L + R) / 2;
          stereo_diff = (L - R) / 2
      in (if stereo_enabled
          then mono * 0.45 + pilot_s * 0.09 + stereo_diff * subcarrier * 0.45
          else mono) + external_mpx_sample)"

text \<open>The three values of lines 187--191 as functions of the two low-pass outputs: the
  mono sum, the stereo difference, and the weighted sum of the stereo branch.\<close>

definition mono_sum :: "float \<Rightarrow> float \<Rightarrow> float" where
  "mono_sum L R = fdiv (fadd L R) (single 2)"

definition stereo_diff :: "float \<Rightarrow> float \<Rightarrow> float" where
  "stereo_diff L R = fdiv (fsub L R) (single 2)"

definition stereo_mix :: "float \<Rightarrow> float \<Rightarrow> float \<Rightarrow> float \<Rightarrow> float" where
  "stereo_mix L R pilot_s subcarrier =
     fadd (fadd (fmul (mono_sum L R) (single 0.45)) (fmul pilot_s (single 0.09)))
          (fmul (fmul (stereo_diff L R) subcarrier) (single 0.45))"

text \<open>The bindings that the constructor calls of lines 136--148 ask for: every DSP object
  reads and writes the cells named in its call.\<close>

definition wired :: "machine \<Rightarrow> bool" where
  "wired s \<longleftrightarrow>
     osc_out (pilot s) = Pilot_sample \<and>
     bq_in (preemp_l s) = Preemp_input_l \<and> bq_out (preemp_l s) = Lpf_preemp_l \<and>
     bq_in (preemp_r s) = Preemp_input_r \<and> bq_out (preemp_r s) = Lpf_preemp_r \<and>
     bq_in (lpf_l s) = Lpf_preemp_l \<and> bq_out (lpf_l s) = Lpf_out_l \<and>
     bq_in (lpf_r s) = Lpf_preemp_r \<and> bq_out (lpf_r s) = Lpf_out_r"

text \<open>The state of the sample loop when \<open>i\<close> has reached \<open>n\<close>.\<close>

definition after_samples :: "int \<Rightarrow> tick \<Rightarrow> nat \<Rightarrow> machine \<Rightarrow> machine" where
  "after_samples stereo t n s =
     fold (\<lambda>i s. sample_step stereo i (deliver t (At_sample i) s)) [0..<n] s"

text \<open>What one channel's pair of filters, in their present state, makes of a sample:
  preemphasis first, low-pass second.\<close>

definition channel :: "BiquadFilter \<Rightarrow> BiquadFilter \<Rightarrow> float \<Rightarrow> float" where
  "channel pre lpf x = biquad_output lpf (biquad_output pre x)"

text \<open>The same tick without a stop signal.\<close>

definition quiet :: "tick \<Rightarrow> tick" where
  "quiet t = t\<lparr>stop_signal := None\<rparr>"

text \<open>The points of an iteration: the block has \<open>BUFFER_SIZE\<close> samples.\<close>

definition in_iteration :: "point \<Rightarrow> bool" where
  "in_iteration p = (case p of At_sample k \<Rightarrow> k < BUFFER_SIZE | _ \<Rightarrow> True)"

definition signalled :: "tick \<Rightarrow> bool" where
  "signalled t = (case stop_signal t of None \<Rightarrow> False | Some p \<Rightarrow> in_iteration p)"

text \<open>A tick in which one of the three device calls fails, for a given name of the
  external multiplex device.\<close>

definition io_fails :: "string \<Rightarrow> tick \<Rightarrow> bool" where
  "io_fails dev t \<longleftrightarrow>
     input_read t = None \<or> (dev \<noteq> [] \<and> mpx_read t = None) \<or> \<not> output_write t"

text \<open>The configurations that violate a precondition named in section 7 of the
  specification, for the constants of lines 136--148 (pilot 19000 Hz, cutoff 15000 Hz,
  time constant 50 us): the sample rate is the only parameter an option sets.\<close>

definition invalid_configuration :: "config \<Rightarrow> bool" where
  "invalid_configuration c \<longleftrightarrow>
     (15000::real) \<ge> of_int (sample_rate c) / 2 \<or> (50 / 1000000 :: real) \<le> 0 \<or>
     (19000::real) \<le> 0 \<or> (of_int (sample_rate c) :: real) \<le> 0"

text \<open>Two states with the same oscillator, filters, cells and channel arrays: they may
  differ in the external multiplex block, the output block and the flag.\<close>

definition same_dsp :: "machine \<Rightarrow> machine \<Rightarrow> bool" where
  "same_dsp a b \<longleftrightarrow>
     pilot a = pilot b \<and> preemp_l a = preemp_l b \<and> preemp_r a = preemp_r b \<and>
     lpf_l a = lpf_l b \<and> lpf_r a = lpf_r b \<and> mem a = mem b \<and>
     left a = left b \<and> right a = right b"

text \<open>The option \<open>-s\<close>, and two configurations that differ at most in the value it
  sets.\<close>

definition stereo_option :: "cli_option \<Rightarrow> bool" where
  "stereo_option x = (case x of Opt_s n \<Rightarrow> True | _ \<Rightarrow> False)"

definition same_but_stereo :: "config \<Rightarrow> config \<Rightarrow> bool" where
  "same_but_stereo c d \<longleftrightarrow>
     sample_rate c = sample_rate d \<and> audio_input_device c = audio_input_device d \<and>
     audio_output_device c = audio_output_device d \<and> audio_mpx_device c = audio_mpx_device d"

subsection \<open>A concrete environment\<close>

text \<open>Filters that pass their input through, zeroed cells and arrays, every device
  opening and no tick: enough to run the definitions on concrete inputs.\<close>

definition pass_through :: coefficients where
  "pass_through = \<lparr>b0 = 1, b1 = 0, b2 = 0, a1 = 0, a2 = 0\<rparr>"

definition plain_designer :: designer where
  "plain_designer =
     \<lparr>lowpass_design = (\<lambda>cutoff q rate. pass_through),
      preemphasis_design = (\<lambda>tau rate. pass_through)\<rparr>"

definition zero_filter :: BiquadFilter where
  "zero_filter =
     \<lparr>coeffs = pass_through, x1 = 0, x2 = 0, y1 = 0, y2 = 0,
      bq_in = Pilot_sample, bq_out = Pilot_sample\<rparr>"

definition zero_stack :: uninitialised where
  "zero_stack =
     \<lparr>junk_mem = (\<lambda>v. 0),
      junk_audio_stereo_input = (\<lambda>i. 0), junk_left = (\<lambda>i. 0), junk_right = (\<lambda>i. 0),
      junk_output = (\<lambda>i. 0)\<rparr>"

definition calm_world :: world where
  "calm_world =
     \<lparr>open_output = True, open_input = True, open_mpx = True, stack = zero_stack,
      early_stop = False, ticks = []\<rparr>"

text \<open>The state in which the default configuration enters the loop in that environment.\<close>

definition fresh_machine :: machine where
  "fresh_machine =
     \<lparr>running = True,
      pilot = \<lparr>phase = 0, frequency = 19000, osc_rate = 192000, osc_out = Pilot_sample\<rparr>,
      lpf_l = zero_filter\<lparr>bq_in := Lpf_preemp_l, bq_out := Lpf_out_l\<rparr>,
      lpf_r = zero_filter\<lparr>bq_in := Lpf_preemp_r, bq_out := Lpf_out_r\<rparr>,
      preemp_l = zero_filter\<lparr>bq_in := Preemp_input_l, bq_out := Lpf_preemp_l\<rparr>,
      preemp_r = zero_filter\<lparr>bq_in := Preemp_input_r, bq_out := Lpf_preemp_r\<rparr>,
      mem = (\<lambda>v. 0),
      audio_stereo_input = map (\<lambda>i. 0) [0..<BUFFER_SIZE * 2],
      left = map (\<lambda>i. 0) [0..<BUFFER_SIZE + 64],
      right = map (\<lambda>i. 0) [0..<BUFFER_SIZE + 64],
      mpx_in = replicate BUFFER_SIZE 0,
      output_buf = map (\<lambda>i. 0) [0..<BUFFER_SIZE],
      played = [],
      stderr = []\<rparr>"

text \<open>Three ticks: all calls succeed and no signal; the same with a signal during
  sample 5; the input read fails.\<close>

definition good_tick :: tick where
  "good_tick =
     \<lparr>input_read = Some (\<lambda>i. 1), mpx_read = Some (\<lambda>i. 0), output_write = True,
      stop_signal = None\<rparr>"

definition signal_tick :: tick where
  "signal_tick = good_tick\<lparr>stop_signal := Some (At_sample 5)\<rparr>"

definition bad_tick :: tick where
  "bad_tick = good_tick\<lparr>input_read := None\<rparr>"

text \<open>A tick whose input block has 1 in every left and 0 in every right sample.\<close>

definition wide_tick :: tick where
  "wide_tick = good_tick\<lparr>input_read := Some (\<lambda>i. if even i then 1 else 0)\<rparr>"

text \<open>A tick whose input block has 2^-149, the smallest positive single-precision
  number, in every left and 0 in every right sample.\<close>

definition faint_tick :: tick where
  "faint_tick = good_tick\<lparr>input_read := Some (\<lambda>i. if even i then 1 / 2 ^ 149 else 0)\<rparr>"

text \<open>All four filters pass their input through.\<close>

definition plain_filters :: "machine \<Rightarrow> bool" where
  "plain_filters s \<longleftrightarrow>
     coeffs (preemp_l s) = pass_through \<and> coeffs (preemp_r s) = pass_through \<and>
     coeffs (lpf_l s) = pass_through \<and> coeffs (lpf_r s) = pass_through"

section \<open>Auxiliary facts\<close>

subsection \<open>Single-precision arithmetic\<close>

text \<open>Rounding leaves a rounded value as it is, and takes to zero exactly the numbers of
  magnitude at most 2^-150.\<close>

lemma round_half_even_int: "round_half_even (of_int m) = m"
  by (simp add: round_half_even_def)

lemma round_half_even_bounds: "\<lfloor>y\<rfloor> \<le> round_half_even y \<and> round_half_even y \<le> \<lceil>y\<rceil>"
  unfolding round_half_even_def Let_def
  by (auto simp: ceiling_def) linarith+

lemma round_half_even_zero: "round_half_even n = 0 \<longleftrightarrow> \<bar>n\<bar> \<le> 1 / 2"
proof
  assume z: "round_half_even n = 0"
  have fl: "of_int \<lfloor>n\<rfloor> \<le> n" "n < of_int \<lfloor>n\<rfloor> + 1" by linarith+
  show "\<bar>n\<bar> \<le> 1 / 2"
  proof (cases "\<lfloor>n\<rfloor> = 0")
    case True
    with z fl show ?thesis
      by (auto simp: round_half_even_def Let_def split: if_splits)
  next
    case False
    with z have m: "\<lfloor>n\<rfloor> = - 1"
      by (auto simp: round_half_even_def Let_def split: if_splits)
    with z fl show ?thesis
      by (auto simp: round_half_even_def Let_def split: if_splits)
  qed
next
  assume a: "\<bar>n\<bar> \<le> 1 / 2"
  then have "- 1 \<le> \<lfloor>n\<rfloor>" "\<lfloor>n\<rfloor> \<le> 0" by (simp_all add: le_floor_iff floor_le_iff)
  then consider "\<lfloor>n\<rfloor> = 0" | "\<lfloor>n\<rfloor> = - 1" by linarith
  then show "round_half_even n = 0"
  proof cases
    case 1
    with a show ?thesis by (auto simp: round_half_even_def Let_def)
  next
    case 2
    with a show ?thesis by (auto simp: round_half_even_def Let_def)
  qed
qed

lemma round_half_even_unit: "\<bar>round_half_even n\<bar> \<le> 1 \<longleftrightarrow> \<bar>n\<bar> < 3 / 2"
proof
  assume a: "\<bar>n\<bar> < 3 / 2"
  then have "- 2 \<le> \<lfloor>n\<rfloor>" "\<lfloor>n\<rfloor> \<le> 1" by (simp_all add: le_floor_iff floor_le_iff)
  then consider "\<lfloor>n\<rfloor> = 1" | "\<lfloor>n\<rfloor> = 0" | "\<lfloor>n\<rfloor> = - 1" | "\<lfloor>n\<rfloor> = - 2" by linarith
  then show "\<bar>round_half_even n\<bar> \<le> 1"
  proof cases
    case 1
    with a show ?thesis by (auto simp: round_half_even_def Let_def)
  next
    case 2
    then show ?thesis by (auto simp: round_half_even_def Let_def)
  next
    case 3
    then show ?thesis by (auto simp: round_half_even_def Let_def)
  next
    case 4
    with a show ?thesis by (auto simp: round_half_even_def Let_def)
  qed
next
  assume r: "\<bar>round_half_even n\<bar> \<le> 1"
  note b = round_half_even_bounds [of n]
  have fl: "of_int \<lfloor>n\<rfloor> \<le> n" "n < of_int \<lfloor>n\<rfloor> + 1" by linarith+
  show "\<bar>n\<bar> < 3 / 2"
  proof (rule ccontr)
    assume "\<not> \<bar>n\<bar> < 3 / 2"
    then consider "3 / 2 \<le> n" | "n \<le> - (3 / 2)" by linarith
    then show False
    proof cases
      case 1
      then have f1: "1 \<le> \<lfloor>n\<rfloor>" by (simp add: le_floor_iff)
      show False
      proof (cases "\<lfloor>n\<rfloor> = 1")
        case True
        with 1 r show False by (auto simp: round_half_even_def Let_def split: if_splits)
      next
        case False
        with f1 b r show False by linarith
      qed
    next
      case 2
      then have "\<lceil>n\<rceil> \<le> - 1" by (simp add: ceiling_le_iff)
      then have f2: "\<lfloor>n\<rfloor> \<le> - 2" using 2 by (simp add: floor_le_iff)
      show False
      proof (cases "\<lfloor>n\<rfloor> = - 2")
        case True
        with 2 r show False by (auto simp: round_half_even_def Let_def split: if_splits)
      next
        case False
        with f2 have "\<lfloor>n\<rfloor> \<le> - 3" by linarith
        then have "n < - 2" by (simp add: floor_le_iff)
        then have "\<lceil>n\<rceil> \<le> - 2" by (simp add: ceiling_le_iff)
        with b r show False by linarith
      qed
    qed
  qed
qed

lemma exponent_unique:
  assumes "2 powr of_int e \<le> \<bar>x\<bar>" and "\<bar>x\<bar> < 2 powr (of_int e + 1)"
  shows "exponent x = e"
proof -
  have pos: "0 < \<bar>x\<bar>" using assms(1) by (smt (verit) powr_gt_zero)
  have "of_int e \<le> log 2 \<bar>x\<bar>" using assms(1) pos by (simp add: le_log_iff)
  moreover have "log 2 \<bar>x\<bar> < of_int e + 1" using assms(2) pos by (simp add: log_less_iff)
  ultimately show ?thesis unfolding exponent_def by (intro floor_unique) simp_all
qed

lemma exponent_bounds:
  assumes "x \<noteq> 0"
  shows "2 powr of_int (exponent x) \<le> \<bar>x\<bar>" and "\<bar>x\<bar> < 2 powr (of_int (exponent x) + 1)"
proof -
  have pos: "0 < \<bar>x\<bar>" using assms by simp
  have "of_int (exponent x) \<le> log 2 \<bar>x\<bar>" unfolding exponent_def by simp
  then show "2 powr of_int (exponent x) \<le> \<bar>x\<bar>" using pos by (simp add: le_log_iff)
  have "log 2 \<bar>x\<bar> < of_int (exponent x) + 1" unfolding exponent_def by linarith
  then show "\<bar>x\<bar> < 2 powr (of_int (exponent x) + 1)" using pos by (simp add: log_less_iff)
qed

lemma exponent_normal:
  assumes "2 powr (- 126) \<le> \<bar>x\<bar>"
  shows "- 126 \<le> exponent x"
proof -
  have pos: "0 < \<bar>x\<bar>" using assms by (smt (verit) powr_gt_zero)
  have "- 126 \<le> log 2 \<bar>x\<bar>" using assms pos by (simp add: le_log_iff)
  then show ?thesis unfolding exponent_def by (simp add: le_floor_iff)
qed

lemma exponent_small:
  assumes "x \<noteq> 0" and "\<bar>x\<bar> < 2 powr (- 125)"
  shows "exponent x \<le> - 126"
proof -
  have pos: "0 < \<bar>x\<bar>" using assms(1) by simp
  have "log 2 \<bar>x\<bar> < - 125" using assms(2) pos by (simp add: log_less_iff)
  then have "\<lfloor>log 2 \<bar>x\<bar>\<rfloor> < - 125" by (simp add: floor_less_iff)
  then show ?thesis unfolding exponent_def by simp
qed

lemma ulp_positive: "0 < ulp x"
  by (simp add: ulp_def)

lemma ulp_normal: "- 126 \<le> exponent x \<Longrightarrow> ulp x = 2 powr (of_int (exponent x) - 23)"
  by (simp add: ulp_def max_def)

lemma ulp_small:
  assumes "x \<noteq> 0" and "\<bar>x\<bar> < 2 powr (- 125)"
  shows "ulp x = 2 powr (- 149)"
  using exponent_small [OF assms] by (simp add: ulp_def max_def)

lemma ulp_scale: "- 126 \<le> exponent x \<Longrightarrow> 2 powr of_int (exponent x) = 2 ^ 23 * ulp x"
proof -
  assume n: "- 126 \<le> exponent x"
  have "(2::real) powr of_int (exponent x) = 2 powr (23 + (of_int (exponent x) - 23))" by simp
  also have "\<dots> = 2 powr 23 * 2 powr (of_int (exponent x) - 23)" by (rule powr_add)
  finally show ?thesis by (simp add: ulp_normal [OF n])
qed

lemma mantissa_bounds:
  assumes "x \<noteq> 0" and n: "- 126 \<le> exponent x"
  shows "2 ^ 23 \<le> \<bar>x / ulp x\<bar>" and "\<bar>x / ulp x\<bar> < 2 ^ 24"
proof -
  have u: "0 < ulp x" by (rule ulp_positive)
  have a: "\<bar>x / ulp x\<bar> = \<bar>x\<bar> / ulp x" using u by simp
  from exponent_bounds(1) [OF assms(1)] have "2 ^ 23 * ulp x \<le> \<bar>x\<bar>"
    by (simp add: ulp_scale [OF n])
  then show "2 ^ 23 \<le> \<bar>x / ulp x\<bar>" using u by (simp add: a pos_le_divide_eq)
  have "2 powr (of_int (exponent x) + 1) = 2 * (2 ^ 23 * ulp x)"
    by (simp add: powr_add ulp_scale [OF n])
  with exponent_bounds(2) [OF assms(1)] have "\<bar>x\<bar> < 2 ^ 24 * ulp x" by simp
  then show "\<bar>x / ulp x\<bar> < 2 ^ 24" using u by (simp add: a pos_divide_less_eq)
qed

lemma rounded_mantissa:
  assumes "2 ^ 23 \<le> \<bar>n\<bar>" and "\<bar>n\<bar> < 2 ^ 24"
  shows "2 ^ 23 \<le> \<bar>round_half_even n\<bar>" and "\<bar>round_half_even n\<bar> \<le> 2 ^ 24"
proof -
  note b = round_half_even_bounds [of n]
  show "2 ^ 23 \<le> \<bar>round_half_even n\<bar>"
  proof (cases "0 \<le> n")
    case True
    with assms(1) have "(2::real) ^ 23 \<le> n" by simp
    then have "(2::int) ^ 23 \<le> \<lfloor>n\<rfloor>" by (simp add: le_floor_iff)
    with b show ?thesis by linarith
  next
    case False
    with assms(1) have "n \<le> - ((2::real) ^ 23)" by simp
    then have "\<lceil>n\<rceil> \<le> - ((2::int) ^ 23)" by (simp add: ceiling_le_iff)
    with b show ?thesis by linarith
  qed
  show "\<bar>round_half_even n\<bar> \<le> 2 ^ 24"
  proof -
    from assms(2) have "n \<le> (2::real) ^ 24" "- ((2::real) ^ 24) \<le> n" by simp_all
    then have "\<lceil>n\<rceil> \<le> (2::int) ^ 24" "- ((2::int) ^ 24) \<le> \<lfloor>n\<rfloor>"
      by (simp_all add: ceiling_le_iff le_floor_iff)
    with b show ?thesis by linarith
  qed
qed

lemma rounded_small:
  assumes "\<bar>n\<bar> < 2 ^ 23"
  shows "\<bar>round_half_even n\<bar> \<le> 2 ^ 23"
proof -
  note b = round_half_even_bounds [of n]
  from assms have "n \<le> (2::real) ^ 23" "- ((2::real) ^ 23) \<le> n" by simp_all
  then have "\<lceil>n\<rceil> \<le> (2::int) ^ 23" "- ((2::int) ^ 23) \<le> \<lfloor>n\<rfloor>"
    by (simp_all add: ceiling_le_iff le_floor_iff)
  with b show ?thesis by linarith
qed

lemma single_zero: "single 0 = 0"
  by (simp add: single_def)

lemma single_at:
  assumes "2 powr of_int e \<le> \<bar>x\<bar>" and "\<bar>x\<bar> < 2 powr (of_int e + 1)" and "- 126 \<le> e"
  shows "single x = of_int (round_half_even (x / 2 powr (of_int e - 23))) * 2 powr (of_int e - 23)"
proof -
  have "x \<noteq> 0" using assms(1) by (smt (verit) powr_gt_zero)
  then show ?thesis
    using assms(3) by (simp add: single_def ulp_def exponent_unique [OF assms(1,2)] max_def)
qed

lemma single_small:
  assumes "\<bar>x\<bar> < 2 powr (- 125)"
  shows "single x = of_int (round_half_even (x / 2 powr (- 149))) * 2 powr (- 149)"
proof (cases "x = 0")
  case True
  then show ?thesis by (simp add: single_zero round_half_even_def)
next
  case False
  then show ?thesis by (simp add: single_def ulp_small [OF False assms])
qed


lemma single_mantissa:
  assumes "2 ^ 23 \<le> \<bar>m\<bar>" and "\<bar>m\<bar> \<le> 2 ^ 24" and n: "- 126 \<le> e"
  shows "single (of_int m * 2 powr (of_int e - 23)) = of_int m * 2 powr (of_int e - 23)"
proof (cases "\<bar>m\<bar> = 2 ^ 24")
  case False
  with assms have lt: "\<bar>m\<bar> < 2 ^ 24" by simp
  let ?u = "2 powr (of_int e - 23) :: real"
  have u: "0 < ?u" by simp
  have ab: "\<bar>of_int m * ?u\<bar> = of_int \<bar>m\<bar> * ?u" by (simp add: abs_mult)
  have s: "2 powr of_int e = 2 ^ 23 * ?u"
  proof -
    have "(2::real) powr of_int e = 2 powr (23 + (of_int e - 23))" by simp
    also have "\<dots> = 2 powr 23 * ?u" by (rule powr_add)
    finally show ?thesis by simp
  qed
  have "(2::real) ^ 23 \<le> of_int \<bar>m\<bar>"
    using assms(1) by (metis of_int_le_iff of_int_numeral of_int_power)
  then have lo: "2 powr of_int e \<le> \<bar>of_int m * ?u\<bar>"
    using u by (simp add: ab s)
  have "of_int \<bar>m\<bar> < (2::real) ^ 24"
    using lt by (metis of_int_less_iff of_int_numeral of_int_power)
  then have "of_int \<bar>m\<bar> * ?u < 2 ^ 24 * ?u" using u by simp
  then have hi: "\<bar>of_int m * ?u\<bar> < 2 powr (of_int e + 1)"
    by (simp add: ab powr_add s)
  show ?thesis
    using single_at [OF lo hi n] u by (simp add: round_half_even_int)
next
  case True
  define u :: real where "u = 2 powr (of_int e - 23)"
  define v :: real where "v = 2 powr (of_int (e + 1) - 23)"
  have v: "v = 2 * u"
  proof -
    have "v = 2 powr (1 + (of_int e - 23))" by (simp add: v_def)
    also have "\<dots> = 2 powr 1 * u" unfolding u_def by (rule powr_add)
    finally show ?thesis by simp
  qed
  have u: "0 < u" by (simp add: u_def)
  have s: "2 powr of_int e = 2 ^ 23 * u"
  proof -
    have "(2::real) powr of_int e = 2 powr (23 + (of_int e - 23))" by simp
    also have "\<dots> = 2 powr 23 * u" unfolding u_def by (rule powr_add)
    finally show ?thesis by simp
  qed
  have m: "m = 2 ^ 24 \<or> m = - (2 ^ 24)" using True by linarith
  have ab: "\<bar>of_int m * u\<bar> = 2 ^ 24 * u" using m u by (auto simp: abs_mult)
  have lo: "2 powr of_int (e + 1) \<le> \<bar>of_int m * u\<bar>"
    by (simp add: ab powr_add s)
  have hi: "\<bar>of_int m * u\<bar> < 2 powr (of_int (e + 1) + 1)"
    using u by (simp add: ab powr_add s)
  have n': "- 126 \<le> e + 1" using n by simp
  have q: "of_int m * u / v = of_int (m div 2)"
    using m u by (auto simp: v)
  have "single (of_int m * u) = of_int (round_half_even (of_int m * u / v)) * v"
    using single_at [OF lo hi n'] unfolding v_def .
  also have "\<dots> = of_int (m div 2) * v" by (simp only: q round_half_even_int)
  also have "\<dots> = of_int m * u" using m by (auto simp: v)
  finally show ?thesis unfolding u_def .
qed

lemma single_grid:
  assumes "\<bar>m\<bar> \<le> 2 ^ 23"
  shows "single (of_int m * 2 powr (- 149)) = of_int m * 2 powr (- 149)"
proof -
  let ?u = "2 powr (- 149) :: real"
  have u: "0 < ?u" by simp
  have "of_int \<bar>m\<bar> \<le> (2::real) ^ 23"
    using assms by (metis of_int_le_iff of_int_numeral of_int_power)
  then have "of_int \<bar>m\<bar> * ?u \<le> 2 ^ 23 * ?u" using u by simp
  also have "2 ^ 23 * ?u = 2 powr (- 126)"
  proof -
    have "(2::real) powr (- 126) = 2 powr (23 + (- 149))" by simp
    also have "\<dots> = 2 powr 23 * ?u" by (rule powr_add)
    finally show ?thesis by simp
  qed
  also have "(2::real) powr (- 126) < 2 powr (- 125)" by simp
  finally have "\<bar>of_int m * ?u\<bar> < 2 powr (- 125)" by (simp add: abs_mult)
  from single_small [OF this] u show ?thesis by (simp add: round_half_even_int)
qed

lemma single_idem: "single (single x) = single x"
proof (cases "\<bar>x\<bar> < 2 powr (- 126)")
  case True
  let ?u = "2 powr (- 149) :: real"
  have u: "0 < ?u" by simp
  have p: "(2::real) powr (- 126) = 2 ^ 23 * ?u"
  proof -
    have "(2::real) powr (- 126) = 2 powr (23 + (- 149))" by simp
    also have "\<dots> = 2 powr 23 * ?u" by (rule powr_add)
    finally show ?thesis by simp
  qed
  have "\<bar>x\<bar> < 2 powr (- 125)" using True by (smt (verit) powr_less_cancel_iff)
  then have sx: "single x = of_int (round_half_even (x / ?u)) * ?u" by (rule single_small)
  have "\<bar>x / ?u\<bar> = \<bar>x\<bar> / ?u" using u by simp
  also have "\<dots> < 2 ^ 23" using True u by (simp add: p pos_divide_less_eq)
  finally have "\<bar>round_half_even (x / ?u)\<bar> \<le> 2 ^ 23" by (rule rounded_small)
  from single_grid [OF this] show ?thesis by (simp only: sx)
next
  case False
  then have ge: "2 powr (- 126) \<le> \<bar>x\<bar>" by simp
  then have nz: "x \<noteq> 0" by (smt (verit) powr_gt_zero)
  have n: "- 126 \<le> exponent x" using ge by (rule exponent_normal)
  from rounded_mantissa [OF mantissa_bounds [OF nz n]] n
  have "single (of_int (round_half_even (x / ulp x)) * 2 powr (of_int (exponent x) - 23))
          = of_int (round_half_even (x / ulp x)) * 2 powr (of_int (exponent x) - 23)"
    by (rule single_mantissa)
  with nz show ?thesis by (simp add: single_def ulp_normal [OF n])
qed

text \<open>A number rounds to zero exactly when it is at most half of the smallest positive
  single-precision number.\<close>

lemma single_eq_zero: "single x = 0 \<longleftrightarrow> \<bar>x\<bar> \<le> 2 powr (- 150)"
proof (cases "\<bar>x\<bar> < 2 powr (- 125)")
  case True
  let ?u = "2 powr (- 149) :: real"
  have u: "0 < ?u" by simp
  have h: "?u / 2 = 2 powr (- 150)"
  proof -
    have "(2::real) powr (- 149) = 2 powr (1 + (- 150))" by simp
    also have "\<dots> = 2 powr 1 * 2 powr (- 150)" by (rule powr_add)
    finally show ?thesis by simp
  qed
  have "single x = 0 \<longleftrightarrow> round_half_even (x / ?u) = 0"
    using single_small [OF True] u by simp
  also have "\<dots> \<longleftrightarrow> \<bar>x / ?u\<bar> \<le> 1 / 2" by (rule round_half_even_zero)
  also have "\<dots> \<longleftrightarrow> \<bar>x\<bar> \<le> ?u / 2" using u by (simp add: pos_divide_le_eq)
  finally show ?thesis by (simp only: h)
next
  case False
  then have ge: "2 powr (- 125) \<le> \<bar>x\<bar>" by simp
  have "(2::real) powr (- 150) < 2 powr (- 125)" by simp
  with ge have big: "\<not> \<bar>x\<bar> \<le> 2 powr (- 150)" by linarith
  have "(2::real) powr (- 126) \<le> 2 powr (- 125)" by simp
  with ge have ge': "2 powr (- 126) \<le> \<bar>x\<bar>" by linarith
  then have nz: "x \<noteq> 0" by (smt (verit) powr_gt_zero)
  have n: "- 126 \<le> exponent x" using ge' by (rule exponent_normal)
  from rounded_mantissa(1) [OF mantissa_bounds [OF nz n]]
  have "round_half_even (x / ulp x) \<noteq> 0" by auto
  with nz ulp_positive [of x] have "single x \<noteq> 0" by (simp add: single_def)
  with big show ?thesis by simp
qed

text \<open>A number rounds to at most the smallest positive single-precision number exactly
  when it is below one and a half times that number.\<close>

lemma single_le_least: "\<bar>single x\<bar> \<le> 2 powr (- 149) \<longleftrightarrow> \<bar>x\<bar> < 3 / 2 * 2 powr (- 149)"
proof (cases "\<bar>x\<bar> < 2 powr (- 125)")
  case True
  let ?u = "2 powr (- 149) :: real"
  have u: "0 < ?u" by simp
  have "\<bar>single x\<bar> = of_int \<bar>round_half_even (x / ?u)\<bar> * ?u"
    using single_small [OF True] u by (simp add: abs_mult)
  then have "\<bar>single x\<bar> \<le> ?u \<longleftrightarrow> of_int \<bar>round_half_even (x / ?u)\<bar> * ?u \<le> 1 * ?u"
    by simp
  also have "\<dots> \<longleftrightarrow> of_int \<bar>round_half_even (x / ?u)\<bar> \<le> (1::real)"
    using u by (simp only: mult_le_cancel_right_pos)
  also have "\<dots> \<longleftrightarrow> \<bar>round_half_even (x / ?u)\<bar> \<le> 1" by linarith
  also have "\<dots> \<longleftrightarrow> \<bar>x / ?u\<bar> < 3 / 2" by (rule round_half_even_unit)
  also have "\<dots> \<longleftrightarrow> \<bar>x\<bar> < 3 / 2 * ?u" using u by (simp add: pos_divide_less_eq)
  finally show ?thesis .
next
  case False
  let ?u = "2 powr (- 149) :: real"
  have u: "0 < ?u" by simp
  from False have ge: "2 powr (- 125) \<le> \<bar>x\<bar>" by simp
  have q: "(2::real) powr (- 125) = 2 ^ 24 * ?u"
  proof -
    have "(2::real) powr (- 125) = 2 powr (24 + (- 149))" by simp
    also have "\<dots> = 2 powr 24 * ?u" by (rule powr_add)
    finally show ?thesis by simp
  qed
  have big: "\<not> \<bar>x\<bar> < 3 / 2 * ?u" using ge u by (simp add: q)
  have "(2::real) powr (- 126) \<le> 2 powr (- 125)" by simp
  with ge have ge': "2 powr (- 126) \<le> \<bar>x\<bar>" by linarith
  then have nz: "x \<noteq> 0" by (smt (verit) powr_gt_zero)
  have n: "- 126 \<le> exponent x" using ge' by (rule exponent_normal)
  have "?u \<le> ulp x"
    using n by (simp add: ulp_normal [OF n])
  moreover from rounded_mantissa(1) [OF mantissa_bounds [OF nz n]]
  have "(2::int) \<le> \<bar>round_half_even (x / ulp x)\<bar>" by simp
  then have "(2::real) \<le> of_int \<bar>round_half_even (x / ulp x)\<bar>" by linarith
  ultimately have two: "2 * ?u \<le> of_int \<bar>round_half_even (x / ulp x)\<bar> * ulp x"
    using u by (intro mult_mono) simp_all
  have sx: "\<bar>single x\<bar> = of_int \<bar>round_half_even (x / ulp x)\<bar> * ulp x"
    using nz ulp_positive [of x] by (simp add: single_def abs_mult)
  from two u have "\<not> \<bar>single x\<bar> \<le> ?u" unfolding sx by linarith
  with big show ?thesis by simp
qed

lemma single_1: "single 1 = 1"
  using single_at [of 0 1] by (simp add: powr_minus round_half_even_int [of 8388608, simplified])

lemma single_2: "single 2 = 2"
  using single_at [of 1 2] by (simp add: powr_minus round_half_even_def)

lemma single_half_value: "single (1 / 2) = 1 / 2"
  using single_at [of "- 1" "1 / 2"] by (simp add: powr_minus round_half_even_def)

lemma single_045: "single (9 / 20) = 15099494 / 33554432"
  using single_at [of "- 2" "9 / 20"] by (simp add: powr_minus round_half_even_def)

lemma single_009: "single (9 / 100) = 3019899 / 33554432"
  using single_at [of "- 4" "9 / 100"] by (simp add: powr_minus round_half_even_def)

lemma single_tiny: "single (1 / 33554432) = 1 / 33554432"
  using single_at [of "- 25" "1 / 33554432"] by (simp add: powr_minus round_half_even_def)

lemma single_one_and_tiny: "single (33554433 / 33554432) = 1"
  using single_at [of 0 "33554433 / 33554432"] by (simp add: powr_minus round_half_even_def)

lemma single_half_weight: "single (7549747 / 33554432) = 7549747 / 33554432"
  using single_at [of "- 3" "7549747 / 33554432"] by (simp add: powr_minus round_half_even_def)

lemma single_pilot_weight: "single (3019899 / 33554432) = 3019899 / 33554432"
  using single_at [of "- 4" "3019899 / 33554432"] by (simp add: powr_minus round_half_even_def)

lemma single_pilot_sum: "single (5284823 / 16777216) = 5284823 / 16777216"
  using single_at [of "- 2" "5284823 / 16777216"] by (simp add: powr_minus round_half_even_def)

text \<open>The smallest positive single-precision number is 2^-149; half of it is a tie
  between 0 and 2^-149 and rounds to 0.\<close>

lemma single_least: "single (1 / 2 ^ 149) = 1 / 2 ^ 149"
  using single_grid [of 1] by (simp add: powr_minus)

lemma single_half_least: "single (1 / 2 ^ 150) = 0"
  by (simp add: single_eq_zero powr_minus)

lemma fadd_zero: "fadd x 0 = single x"
  by (simp add: fadd_def)

lemma fmul_zero: "fmul 0 y = 0" "fmul x 0 = 0"
  by (simp_all add: fmul_def single_zero)

lemma fmul_one: "fmul 1 y = single y"
  by (simp add: fmul_def)

subsection \<open>The multiplexer\<close>

text \<open>The halved difference of the two channels is zero exactly when the channels differ
  by less than one and a half times 2^-149; two single-precision numbers that far apart
  are equal or 2^-149 apart.\<close>

lemma stereo_diff_self: "stereo_diff x x = 0"
  by (simp add: stereo_diff_def fdiv_def fsub_def single_zero)

lemma stereo_diff_zero: "stereo_diff L R = 0 \<longleftrightarrow> \<bar>L - R\<bar> < 3 / 2 ^ 150"
proof -
  have h: "2 * (2::real) powr (- 150) = 2 powr (- 149)"
  proof -
    have "(2::real) powr (- 149) = 2 powr (1 + (- 150))" by simp
    also have "\<dots> = 2 powr 1 * 2 powr (- 150)" by (rule powr_add)
    finally show ?thesis by simp
  qed
  have "stereo_diff L R = 0 \<longleftrightarrow> \<bar>single (L - R) / 2\<bar> \<le> 2 powr (- 150)"
    by (simp add: stereo_diff_def fdiv_def fsub_def single_2 single_eq_zero)
  also have "\<dots> \<longleftrightarrow> \<bar>single (L - R)\<bar> \<le> 2 powr (- 149)"
    using h by (simp add: abs_divide) linarith
  also have "\<dots> \<longleftrightarrow> \<bar>L - R\<bar> < 3 / 2 * 2 powr (- 149)" by (rule single_le_least)
  also have "3 / 2 * (2::real) powr (- 149) = 3 / 2 ^ 150" by (simp add: powr_minus)
  finally show ?thesis .
qed

lemma composite_branches:
  "composite stereo L R p k m =
     fadd (if stereo_diff L R \<noteq> 0 then stereo_mix L R p k else mono_sum L R) m"
  by (simp add: composite_def stereo_diff_def stereo_mix_def mono_sum_def Let_def)

lemma branch_value_is_single:
  "single (if stereo_diff L R \<noteq> 0 then stereo_mix L R p k else mono_sum L R)
     = (if stereo_diff L R \<noteq> 0 then stereo_mix L R p k else mono_sum L R)"
  by (simp add: stereo_mix_def mono_sum_def fadd_def fdiv_def single_idem)

lemma composite_without_mpx:
  "composite stereo L R p k 0 =
     (if stereo_diff L R \<noteq> 0 then stereo_mix L R p k else mono_sum L R)"
  using branch_value_is_single [of L R p k] by (simp add: composite_branches fadd_def)

lemma composite_adds_mpx:
  "composite stereo L R p k x = fadd (composite stereo L R p k 0) x"
  by (simp only: composite_without_mpx) (simp add: composite_branches)

text \<open>The values met in the concrete runs.\<close>

lemma unit_mono: "mono_sum 1 1 = 1" "mono_sum 0 0 = 0"
  by (simp_all add: mono_sum_def fdiv_def fadd_def single_1 single_2 single_zero)

lemma composite_unit_channels: "composite stereo 1 1 p k m = fadd 1 m"
  by (simp add: composite_branches stereo_diff_self unit_mono)

lemma half_mono: "mono_sum 1 0 = 1 / 2" "stereo_diff 1 0 = 1 / 2"
  by (simp_all add: mono_sum_def stereo_diff_def fdiv_def fadd_def fsub_def single_1 single_2
        single_half_value)

lemma half_weight: "fmul (1 / 2) (single (9 / 20)) = 7549747 / 33554432"
  by (simp add: fmul_def single_045 single_half_weight)

lemma stereo_mix_silent_pilot: "stereo_mix 1 0 0 0 = 7549747 / 33554432"
  by (simp only: stereo_mix_def half_mono)
     (simp add: half_weight fmul_zero fadd_zero single_half_weight)

lemma stereo_mix_full_pilot: "stereo_mix 1 0 1 0 = 5284823 / 16777216"
proof -
  have a: "fadd (7549747 / 33554432) (3019899 / 33554432) = 5284823 / 16777216"
    using single_pilot_sum by (simp add: fadd_def)
  show ?thesis
    by (simp only: stereo_mix_def half_mono)
       (simp add: half_weight fmul_zero fmul_one fadd_zero single_idem single_009 a
          single_pilot_sum single_pilot_weight)
qed

text \<open>Two channels 2^-149 apart: the halved difference underflows to zero, so the mono
  branch is taken although the channels differ, where the stereo branch would have
  added the pilot.\<close>

lemma faint_difference:
  "stereo_diff (1 / 2 ^ 149) 0 = 0" "mono_sum (1 / 2 ^ 149) 0 = 0"
  "stereo_mix (1 / 2 ^ 149) 0 1 1 = 3019899 / 33554432"
proof -
  show d: "stereo_diff (1 / 2 ^ 149) 0 = 0"
    by (simp add: stereo_diff_zero)
  show m: "mono_sum (1 / 2 ^ 149) 0 = 0"
  proof -
    have h: "1 / 2 ^ 149 / 2 = (1::real) / 2 ^ 150" by simp
    have "mono_sum (1 / 2 ^ 149) 0 = single (single (1 / 2 ^ 149) / 2)"
      by (simp add: mono_sum_def fdiv_def fadd_def single_2)
    also have "\<dots> = single (1 / 2 ^ 150)" by (simp only: single_least h)
    finally show ?thesis by (simp only: single_half_least)
  qed
  show "stereo_mix (1 / 2 ^ 149) 0 1 1 = 3019899 / 33554432"
    by (simp only: stereo_mix_def m d)
       (simp add: fmul_zero fmul_one fadd_def single_idem single_009 single_pilot_weight)
qed

subsection \<open>One sample\<close>

text \<open>The loop body reads and writes the cells its objects are bound to; with the bindings of \<open>main\<close> the composite is formed from the two channels' low-pass outputs.\<close>

lemma sample_step_output:
  assumes "wired s" and "i < length (output_buf s)"
  shows "output_buf (sample_step stereo i s) ! i =
           composite stereo (channel (preemp_l s) (lpf_l s) (left s ! i))
                            (channel (preemp_r s) (lpf_r s) (right s ! i))
                            (sin (phase (pilot s))) (sin (2 * phase (pilot s)))
                            (mpx_in s ! i)"
  using assms
  by (simp add: sample_step_def wired_def channel_def apply_biquad_def Let_def
        compute_sine_oscillator_sin_def compute_sine_oscillator_sin_multiplier_def)

lemma sample_step_frame:
  "left (sample_step stereo i s) = left s"
  "right (sample_step stereo i s) = right s"
  "mpx_in (sample_step stereo i s) = mpx_in s"
  "running (sample_step stereo i s) = running s"
  "played (sample_step stereo i s) = played s"
  "stderr (sample_step stereo i s) = stderr s"
  "audio_stereo_input (sample_step stereo i s) = audio_stereo_input s"
  "length (output_buf (sample_step stereo i s)) = length (output_buf s)"
  "pilot (sample_step stereo i s) = advance_sine_oscillator (pilot s)"
  by (simp_all add: sample_step_def Let_def split: prod.splits)

lemma sample_step_other:
  "j \<noteq> i \<Longrightarrow> output_buf (sample_step stereo i s) ! j = output_buf s ! j"
  by (simp add: sample_step_def Let_def split: prod.splits)

lemma sample_step_wired: "wired s \<Longrightarrow> wired (sample_step stereo i s)"
  by (simp add: sample_step_def wired_def apply_biquad_def Let_def advance_sine_oscillator_def)

lemma sample_step_cell:
  "wired s \<Longrightarrow> mem (sample_step stereo i s) Pilot_sample = sin (2 * phase (pilot s))"
  by (simp add: sample_step_def wired_def apply_biquad_def Let_def
        compute_sine_oscillator_sin_def compute_sine_oscillator_sin_multiplier_def)

lemma sample_step_filters:
  assumes "wired s"
  shows "x1 (preemp_l (sample_step stereo i s)) = left s ! i"
    and "x1 (preemp_r (sample_step stereo i s)) = right s ! i"
    and "x1 (lpf_l (sample_step stereo i s)) = biquad_output (preemp_l s) (left s ! i)"
    and "x1 (lpf_r (sample_step stereo i s)) = biquad_output (preemp_r s) (right s ! i)"
    and "y1 (lpf_l (sample_step stereo i s)) = channel (preemp_l s) (lpf_l s) (left s ! i)"
    and "y1 (lpf_r (sample_step stereo i s)) = channel (preemp_r s) (lpf_r s) (right s ! i)"
  using assms
  by (simp_all add: sample_step_def wired_def apply_biquad_def Let_def channel_def
        compute_sine_oscillator_sin_def compute_sine_oscillator_sin_multiplier_def)

lemma sample_step_running:
  "sample_step stereo i (s\<lparr>running := b\<rparr>) = (sample_step stereo i s)\<lparr>running := b\<rparr>"
  by (simp add: sample_step_def Let_def split: prod.splits)

lemma sample_step_flag: "sample_step a = sample_step b"
  by (simp add: sample_step_def composite_def fun_eq_iff)

subsection \<open>The stop signal\<close>

text \<open>The handler touches the flag and nothing else.\<close>

lemma deliver_frame:
  "left (deliver t p s) = left s"
  "right (deliver t p s) = right s"
  "mpx_in (deliver t p s) = mpx_in s"
  "played (deliver t p s) = played s"
  "stderr (deliver t p s) = stderr s"
  "audio_stereo_input (deliver t p s) = audio_stereo_input s"
  "output_buf (deliver t p s) = output_buf s"
  "pilot (deliver t p s) = pilot s"
  "preemp_l (deliver t p s) = preemp_l s"
  "preemp_r (deliver t p s) = preemp_r s"
  "lpf_l (deliver t p s) = lpf_l s"
  "lpf_r (deliver t p s) = lpf_r s"
  "mem (deliver t p s) = mem s"
  by (simp_all add: deliver_def stop_def)

lemma deliver_wired: "wired (deliver t p s) = wired s"
  by (simp add: wired_def deliver_frame)

lemma deliver_quiet: "deliver (quiet t) p s = s"
  by (simp add: deliver_def quiet_def)

lemma deliver_running:
  "deliver t p s = s\<lparr>running := running s \<and> stop_signal t \<noteq> Some p\<rparr>"
  by (simp add: deliver_def stop_def)

lemma not_signalled_iff:
  "\<not> signalled t \<longleftrightarrow>
     stop_signal t \<noteq> Some At_input_read \<and> stop_signal t \<noteq> Some At_mpx_read \<and>
     (\<forall>k<BUFFER_SIZE. stop_signal t \<noteq> Some (At_sample k)) \<and>
     stop_signal t \<noteq> Some At_output_write \<and> stop_signal t \<noteq> Some At_loop_end"
proof (cases "stop_signal t")
  case None
  then show ?thesis by (simp add: signalled_def)
next
  case (Some p)
  then show ?thesis by (cases p) (auto simp: signalled_def in_iteration_def)
qed

subsection \<open>The sample loop\<close>

text \<open>Sample \<open>i\<close> of the block is written once, by step \<open>i\<close>, from the state the first \<open>i\<close> steps have produced.\<close>

lemma after_samples_0: "after_samples stereo t 0 s = s"
  by (simp add: after_samples_def)

lemma after_samples_Suc:
  "after_samples stereo t (Suc n) s =
     sample_step stereo n (deliver t (At_sample n) (after_samples stereo t n s))"
  by (simp add: after_samples_def)

lemma process_block_after: "process_block stereo t s = after_samples stereo t BUFFER_SIZE s"
  by (simp add: process_block_def after_samples_def)

lemma after_samples_frame:
  "left (after_samples stereo t n s) = left s"
  "right (after_samples stereo t n s) = right s"
  "mpx_in (after_samples stereo t n s) = mpx_in s"
  "played (after_samples stereo t n s) = played s"
  "stderr (after_samples stereo t n s) = stderr s"
  "audio_stereo_input (after_samples stereo t n s) = audio_stereo_input s"
  "length (output_buf (after_samples stereo t n s)) = length (output_buf s)"
  by (induction n; simp add: after_samples_0 after_samples_Suc sample_step_frame deliver_frame)+

lemma after_samples_wired: "wired s \<Longrightarrow> wired (after_samples stereo t n s)"
  by (induction n) (simp_all add: after_samples_0 after_samples_Suc sample_step_wired deliver_wired)

lemma after_samples_pilot:
  "pilot (after_samples stereo t n s) = (advance_sine_oscillator ^^ n) (pilot s)"
  by (induction n) (simp_all add: after_samples_0 after_samples_Suc sample_step_frame deliver_frame)

lemma after_samples_keeps:
  "i < n \<Longrightarrow> n \<le> k \<Longrightarrow>
     output_buf (after_samples stereo t k s) ! i = output_buf (after_samples stereo t n s) ! i"
proof (induction k)
  case 0
  then show ?case by simp
next
  case (Suc k)
  show ?case
  proof (cases "n = Suc k")
    case True
    then show ?thesis by simp
  next
    case False
    with Suc.prems have le: "n \<le> k" by simp
    from Suc.prems le have "i \<noteq> k" by simp
    then have "output_buf (after_samples stereo t (Suc k) s) ! i =
               output_buf (after_samples stereo t k s) ! i"
      by (simp add: after_samples_Suc sample_step_other deliver_frame)
    with Suc.IH [OF Suc.prems(1) le] show ?thesis by simp
  qed
qed

lemma block_sample:
  assumes w: "wired s" and i: "i < BUFFER_SIZE" and len: "length (output_buf s) = BUFFER_SIZE"
  shows "output_buf (process_block stereo t s) ! i =
           composite stereo
             (channel (preemp_l (after_samples stereo t i s)) (lpf_l (after_samples stereo t i s))
                (left s ! i))
             (channel (preemp_r (after_samples stereo t i s)) (lpf_r (after_samples stereo t i s))
                (right s ! i))
             (sin (phase (pilot (after_samples stereo t i s))))
             (sin (2 * phase (pilot (after_samples stereo t i s))))
             (mpx_in s ! i)"
proof -
  let ?si = "deliver t (At_sample i) (after_samples stereo t i s)"
  have "output_buf (process_block stereo t s) ! i =
        output_buf (after_samples stereo t (Suc i) s) ! i"
    using i after_samples_keeps [of i "Suc i" BUFFER_SIZE stereo t s]
    by (simp add: process_block_after)
  also have "\<dots> = output_buf (sample_step stereo i ?si) ! i"
    by (simp add: after_samples_Suc)
  also have "\<dots> = composite stereo
             (channel (preemp_l ?si) (lpf_l ?si) (left ?si ! i))
             (channel (preemp_r ?si) (lpf_r ?si) (right ?si ! i))
             (sin (phase (pilot ?si))) (sin (2 * phase (pilot ?si))) (mpx_in ?si ! i)"
    using w i len
    by (intro sample_step_output) (simp_all add: deliver_wired after_samples_wired deliver_frame after_samples_frame)
  finally show ?thesis
    by (simp add: deliver_frame after_samples_frame)
qed

lemma process_block_length:
  "length (output_buf (process_block stereo t s)) = length (output_buf s)"
  by (simp add: process_block_after after_samples_frame)

lemma after_samples_signal:
  "after_samples stereo t n s =
     (after_samples stereo (quiet t) n s)
       \<lparr>running := running s \<and> (\<forall>k<n. stop_signal t \<noteq> Some (At_sample k))\<rparr>"
proof (induction n)
  case 0
  then show ?case by (simp add: after_samples_0)
next
  case (Suc n)
  show ?case
    apply (subst after_samples_Suc)
    apply (subst Suc.IH)
    apply (subst after_samples_Suc)
    apply (simp add: deliver_quiet deliver_running sample_step_running less_Suc_eq
             all_conj_distrib conj_assoc)
    done
qed

lemma after_samples_running:
  "after_samples stereo (quiet t) n (s\<lparr>running := b\<rparr>) =
     (after_samples stereo (quiet t) n s)\<lparr>running := b\<rparr>"
  by (induction n) (simp_all add: after_samples_0 after_samples_Suc deliver_quiet sample_step_running)

lemma after_samples_flag:
  "running (after_samples stereo t n s) =
     (running s \<and> (\<forall>k<n. stop_signal t \<noteq> Some (At_sample k)))"
  by (induction n)
     (auto simp: after_samples_0 after_samples_Suc sample_step_frame deliver_running less_Suc_eq)

lemma process_block_signal:
  "process_block stereo t (s\<lparr>running := b\<rparr>) =
     (process_block stereo (quiet t) s)
       \<lparr>running := b \<and> (\<forall>k<BUFFER_SIZE. stop_signal t \<noteq> Some (At_sample k))\<rparr>"
  by (simp add: process_block_after after_samples_signal [of stereo t] after_samples_running)

lemma process_block_flag: "process_block a = process_block b"
  unfolding process_block_def sample_step_flag [of a b] by (rule refl)

lemma same_dsp_step:
  "same_dsp a b \<Longrightarrow> same_dsp (sample_step x i (deliver t p a)) (sample_step y i (deliver t' p' b))"
  by (simp add: same_dsp_def sample_step_def Let_def deliver_frame split: prod.splits)

lemma same_dsp_after:
  "same_dsp a b \<Longrightarrow> same_dsp (after_samples x t n a) (after_samples y t' n b)"
  by (induction n) (simp_all add: after_samples_0 after_samples_Suc same_dsp_step)

subsection \<open>uninterleave\<close>

text \<open>The loop of lines 28--31, by induction on its bound.\<close>

lemma uninterleave_fold:
  "fold (\<lambda>i (l, r). (l[i := input ! (i * 2)], r[i := input ! (i * 2 + 1)])) [0..<n] (lft, rgt)
     = (l', r') \<Longrightarrow>
   length l' = length lft \<and> length r' = length rgt \<and>
   (\<forall>i<n. i < length lft \<longrightarrow> l' ! i = input ! (i * 2)) \<and>
   (\<forall>i<n. i < length rgt \<longrightarrow> r' ! i = input ! (i * 2 + 1))"
proof (induction n arbitrary: l' r')
  case 0
  then show ?case by simp
next
  case (Suc n)
  obtain l0 r0 where f: "fold (\<lambda>i (l, r). (l[i := input ! (i * 2)], r[i := input ! (i * 2 + 1)]))
                           [0..<n] (lft, rgt) = (l0, r0)"
    by (cases "fold (\<lambda>i (l, r). (l[i := input ! (i * 2)], r[i := input ! (i * 2 + 1)]))
                 [0..<n] (lft, rgt)")
  from Suc.prems f have l': "l' = l0[n := input ! (n * 2)]" and r': "r' = r0[n := input ! (n * 2 + 1)]"
    by simp_all
  from Suc.IH [OF f] show ?case
    unfolding l' r' by (auto simp: nth_list_update less_Suc_eq)
qed

lemma uninterleave_main:
  assumes "uninterleave input lft rgt (BUFFER_SIZE * 2) = (l', r')"
  shows "length l' = length lft" "length r' = length rgt"
    "i < BUFFER_SIZE \<Longrightarrow> i < length lft \<Longrightarrow> l' ! i = input ! (i * 2)"
    "i < BUFFER_SIZE \<Longrightarrow> i < length rgt \<Longrightarrow> r' ! i = input ! (i * 2 + 1)"
  using uninterleave_fold [of input "BUFFER_SIZE * 2 div 2" lft rgt l' r'] assms
  by (simp_all add: uninterleave_def)

subsection \<open>One iteration\<close>

text \<open>What the reads leave behind, and the two ways an iteration ends.\<close>

lemma fetch_block_Inr:
  assumes "fetch_block dev t s = Inr s2"
  shows "\<exists>blk. input_read t = Some blk \<and>
               audio_stereo_input s2 = map blk [0..<length (audio_stereo_input s)]"
    and "dev = [] \<or> mpx_read t \<noteq> None"
    and "dev = [] \<Longrightarrow> mpx_in s2 = mpx_in s"
    and "(left s2, right s2) =
           uninterleave (audio_stereo_input s2) (left s) (right s) (BUFFER_SIZE * 2)"
    and "pilot s2 = pilot s" "preemp_l s2 = preemp_l s" "preemp_r s2 = preemp_r s"
        "lpf_l s2 = lpf_l s" "lpf_r s2 = lpf_r s" "mem s2 = mem s"
    and "output_buf s2 = output_buf s" "played s2 = played s" "stderr s2 = stderr s"
    and "length (mpx_in s2) = length (mpx_in s)"
  using assms
  by (auto simp: fetch_block_def read_input_def read_mpx_def deliver_running Let_def
           split: option.splits prod.splits if_splits)

lemma fetch_block_Inl:
  assumes "fetch_block dev t s = Inl (d, s1)"
  shows "input_read t = None \<or> (dev \<noteq> [] \<and> mpx_read t = None)"
    and "played s1 = played s" and "stderr s1 = stderr s"
    and "output_buf s1 = output_buf s"
  using assms
  by (auto simp: fetch_block_def read_input_def read_mpx_def deliver_running Let_def
           split: option.splits prod.splits if_splits)

lemma fetch_block_succeeds:
  assumes "input_read t \<noteq> None" and "dev = [] \<or> mpx_read t \<noteq> None"
  shows "\<exists>s2. fetch_block dev t s = Inr s2"
  using assms
  by (auto simp: fetch_block_def read_input_def read_mpx_def Let_def
           split: option.splits prod.splits)

lemma fetch_block_channels:
  assumes f: "fetch_block dev t s = Inr s2"
    and "length (audio_stereo_input s) = BUFFER_SIZE * 2"
    and "length (left s) = BUFFER_SIZE + 64" and "length (right s) = BUFFER_SIZE + 64"
    and "i < BUFFER_SIZE"
  shows "\<exists>blk. input_read t = Some blk \<and>
               left s2 ! i = blk (i * 2) \<and> right s2 ! i = blk (i * 2 + 1) \<and>
               audio_stereo_input s2 ! (i * 2) = blk (i * 2) \<and>
               audio_stereo_input s2 ! (i * 2 + 1) = blk (i * 2 + 1)"
proof -
  from fetch_block_Inr(1) [OF f] obtain blk where
    blk: "input_read t = Some blk"
    and inp: "audio_stereo_input s2 = map blk [0..<length (audio_stereo_input s)]" by blast
  have un: "uninterleave (audio_stereo_input s2) (left s) (right s) (BUFFER_SIZE * 2)
              = (left s2, right s2)"
    using fetch_block_Inr(4) [OF f] by simp
  have b: "audio_stereo_input s2 ! (i * 2) = blk (i * 2)"
          "audio_stereo_input s2 ! (i * 2 + 1) = blk (i * 2 + 1)"
    using assms(2,5) by (simp_all add: inp)
  have "left s2 ! i = blk (i * 2)"
    using uninterleave_main(3) [OF un, of i] assms(3,5) b by simp
  moreover have "right s2 ! i = blk (i * 2 + 1)"
    using uninterleave_main(4) [OF un, of i] assms(4,5) b by simp
  ultimately show ?thesis using blk b by blast
qed

lemma fetch_block_signal:
  "fetch_block dev t s =
     (case fetch_block dev (quiet t) s of
        Inl (d, s1) \<Rightarrow>
          Inl (d, s1\<lparr>running := running s \<and> stop_signal t \<noteq> Some At_input_read \<and>
                       (input_read t = None \<or> stop_signal t \<noteq> Some At_mpx_read)\<rparr>)
      | Inr s2 \<Rightarrow>
          Inr (s2\<lparr>running := running s \<and> stop_signal t \<noteq> Some At_input_read \<and>
                       stop_signal t \<noteq> Some At_mpx_read\<rparr>))"
  by (auto simp: fetch_block_def read_input_def read_mpx_def deliver_running deliver_quiet
                 quiet_def Let_def
           split: option.splits prod.splits)

lemma iteration_break:
  assumes "iteration stereo dev t s = (True, s')"
  shows "played s' = played s" and "\<not> running s'"
    and "input_read t = None \<or> (dev \<noteq> [] \<and> mpx_read t = None) \<or> \<not> output_write t"
    and "\<exists>d. stderr s' = stderr s @ [d]"
  using assms
  by (auto simp: iteration_def fail_def write_output_def Let_def deliver_frame
                 process_block_after after_samples_frame
           dest: fetch_block_Inl fetch_block_Inr(12,13)
           split: sum.splits prod.splits option.splits if_splits)

lemma iteration_continue:
  assumes "iteration stereo dev t s = (False, s')"
  shows "\<exists>s2. fetch_block dev t s = Inr s2 \<and>
              played s' = played s @ [output_buf (process_block stereo t s2)]"
    and "output_write t" and "stderr s' = stderr s"
  using assms
  by (auto simp: iteration_def fail_def write_output_def Let_def deliver_frame
                 process_block_after after_samples_frame
           dest: fetch_block_Inr(12,13)
           split: sum.splits prod.splits option.splits if_splits)

lemma iteration_fst: "fst (iteration stereo dev t s) = io_fails dev t"
proof (cases "iteration stereo dev t s")
  case (Pair brk s')
  show ?thesis
  proof (cases brk)
    case True
    with Pair iteration_break(3) [of stereo dev t s s'] show ?thesis
      by (simp add: io_fails_def)
  next
    case False
    with Pair have it: "iteration stereo dev t s = (False, s')" by simp
    from iteration_continue(1) [OF it] obtain s2 where "fetch_block dev t s = Inr s2" by blast
    from fetch_block_Inr(1,2) [OF this] iteration_continue(2) [OF it] Pair False
    show ?thesis by (auto simp: io_fails_def)
  qed
qed

lemma iteration_output_length:
  "iteration stereo dev t s = (brk, s') \<Longrightarrow> length (output_buf s') = length (output_buf s)"
  by (auto simp: iteration_def fail_def write_output_def Let_def deliver_frame
                 process_block_length
           dest: fetch_block_Inl fetch_block_Inr(11)
           split: sum.splits prod.splits option.splits if_splits)

lemma iteration_wired:
  "iteration stereo dev t s = (brk, s') \<Longrightarrow> wired s \<Longrightarrow> \<not> brk \<Longrightarrow> wired s'"
proof -
  assume it: "iteration stereo dev t s = (brk, s')" and w: "wired s" and "\<not> brk"
  then have it': "iteration stereo dev t s = (False, s')" by simp
  from iteration_continue(1) [OF it'] obtain s2 where f: "fetch_block dev t s = Inr s2" by blast
  from fetch_block_Inr(5-9) [OF f] w have w2: "wired s2" by (simp add: wired_def)
  from it' f have "s' = deliver t At_loop_end
                     ((deliver t At_output_write (process_block stereo t s2))
                        \<lparr>played := played (deliver t At_output_write (process_block stereo t s2)) @
                                   [output_buf (deliver t At_output_write (process_block stereo t s2))]\<rparr>)"
    by (simp add: iteration_def write_output_def Let_def split: if_splits)
  then have "wired s' = wired (process_block stereo t s2)"
    by (simp add: wired_def deliver_frame)
  with w2 show "wired s'"
    by (simp add: process_block_after after_samples_wired)
qed

lemma iteration_signal:
  "iteration stereo dev t s =
     (case iteration stereo dev (quiet t) s of
        (True, s') \<Rightarrow> (True, s')
      | (False, s') \<Rightarrow> (False, s'\<lparr>running := running s \<and> \<not> signalled t\<rparr>))"
proof (cases "fetch_block dev (quiet t) s")
  case (Inl a)
  obtain d s1 where a: "a = (d, s1)" by (cases a)
  show ?thesis
    by (simp add: iteration_def fetch_block_signal [of dev t] Inl a fail_def)
next
  case (Inr s2)
  have r2: "running (process_block stereo (quiet t) s2) = running s2"
    by (simp add: process_block_after after_samples_flag quiet_def)
  show ?thesis
    by (simp add: iteration_def fetch_block_signal [of dev t] Inr process_block_signal
                  write_output_def quiet_def [symmetric] deliver_running deliver_quiet fail_def Let_def
                  not_signalled_iff r2 conj_assoc)
       (auto simp: quiet_def)
qed

lemma iteration_flag: "iteration a = iteration b"
  unfolding iteration_def process_block_flag [of a b] by (rule refl)

subsection \<open>The streaming loop\<close>

text \<open>Invariants of the loop, by induction on the ticks.\<close>

lemma stream_loop_stopped: "\<not> running s \<Longrightarrow> stream_loop stereo dev s ts = (Stopped, s)"
  by (cases ts) simp_all

lemma stream_loop_played:
  "stream_loop stereo dev s ts = (ls, s') \<Longrightarrow>
     \<exists>new. played s' = played s @ new \<and> length new \<le> length ts \<and>
           (\<forall>b \<in> set new. length b = length (output_buf s)) \<and>
           length (output_buf s') = length (output_buf s)"
proof (induction ts arbitrary: s)
  case Nil
  then show ?case by (auto split: if_splits)
next
  case (Cons t ts)
  show ?case
  proof (cases "running s")
    case False
    with Cons.prems show ?thesis by auto
  next
    case True
    obtain brk s1 where it: "iteration stereo dev t s = (brk, s1)"
      by (cases "iteration stereo dev t s")
    show ?thesis
    proof (cases brk)
      case True
      with it \<open>running s\<close> Cons.prems have "s' = s1" by simp
      with it True iteration_break(1) [of stereo dev t s s1] iteration_output_length [OF it]
      show ?thesis by auto
    next
      case False
      with it \<open>running s\<close> Cons.prems have rest: "stream_loop stereo dev s1 ts = (ls, s')" by simp
      from it False have it': "iteration stereo dev t s = (False, s1)" by simp
      from iteration_continue(1) [OF it'] obtain s2 where
        p1: "played s1 = played s @ [output_buf (process_block stereo t s2)]"
        and f: "fetch_block dev t s = Inr s2" by blast
      have l1: "length (output_buf (process_block stereo t s2)) = length (output_buf s)"
        using fetch_block_Inr(11) [OF f] by (simp add: process_block_length)
      from Cons.IH [OF rest] obtain new where
        n: "played s' = played s1 @ new" "length new \<le> length ts"
           "\<forall>b \<in> set new. length b = length (output_buf s1)"
           "length (output_buf s') = length (output_buf s1)" by blast
      have "played s' = played s @ (output_buf (process_block stereo t s2) # new)"
        using n(1) p1 by simp
      with n l1 iteration_output_length [OF it] show ?thesis
        by (intro exI [of _ "output_buf (process_block stereo t s2) # new"]) auto
    qed
  qed
qed

lemma stream_loop_mpx:
  "stream_loop stereo [] s ts = (ls, s') \<Longrightarrow> mpx_in s' = mpx_in s"
proof (induction ts arbitrary: s)
  case Nil
  then show ?case by (auto split: if_splits)
next
  case (Cons t ts)
  show ?case
  proof (cases "running s")
    case False
    with Cons.prems show ?thesis by auto
  next
    case True
    obtain brk s1 where it: "iteration stereo [] t s = (brk, s1)"
      by (cases "iteration stereo [] t s")
    have m1: "mpx_in s1 = mpx_in s"
      using it
      by (auto simp: iteration_def fail_def write_output_def Let_def deliver_frame
                     process_block_after after_samples_frame fetch_block_def read_input_def
                     read_mpx_def
               split: sum.splits prod.splits option.splits if_splits)
    show ?thesis
    proof (cases brk)
      case True
      with it \<open>running s\<close> Cons.prems m1 show ?thesis by simp
    next
      case False
      with it \<open>running s\<close> Cons.prems have "stream_loop stereo [] s1 ts = (ls, s')" by simp
      from Cons.IH [OF this] m1 show ?thesis by simp
    qed
  qed
qed

lemma stream_loop_wired:
  "stream_loop stereo dev s ts = (ls, s') \<Longrightarrow> wired s \<Longrightarrow> wired s'"
proof (induction ts arbitrary: s)
  case Nil
  then show ?case by (auto split: if_splits)
next
  case (Cons t ts)
  show ?case
  proof (cases "running s")
    case False
    with Cons.prems show ?thesis by auto
  next
    case True
    obtain brk s1 where it: "iteration stereo dev t s = (brk, s1)"
      by (cases "iteration stereo dev t s")
    show ?thesis
    proof (cases brk)
      case True
      with it \<open>running s\<close> Cons.prems have s': "s' = s1" by simp
      have "wired s1"
      proof (cases "fetch_block dev t s")
        case (Inl e)
        obtain d s0 where e: "e = (d, s0)" by (cases e)
        have "wired s0 = wired s"
          using Inl e
          by (auto simp: fetch_block_def read_input_def read_mpx_def deliver_running Let_def
                         wired_def
                   split: option.splits prod.splits if_splits)
        with it Inl e Cons.prems(2) show ?thesis
          by (auto simp: iteration_def fail_def wired_def)
      next
        case (Inr s2)
        from fetch_block_Inr(5-9) [OF Inr] Cons.prems(2) have "wired s2" by (simp add: wired_def)
        then have "wired (process_block stereo t s2)"
          by (simp add: process_block_after after_samples_wired)
        with it Inr True show ?thesis
          by (auto simp: iteration_def Let_def write_output_def fail_def wired_def deliver_frame
                   split: if_splits)
      qed
      with s' show ?thesis by simp
    next
      case False
      with it \<open>running s\<close> Cons.prems have rest: "stream_loop stereo dev s1 ts = (ls, s')" by simp
      from iteration_wired [OF it Cons.prems(2) False] Cons.IH [OF rest] show ?thesis by simp
    qed
  qed
qed

lemma stream_loop_flag: "stream_loop a dev s ts = stream_loop b dev s ts"
  by (induction ts arbitrary: s)
     (simp_all add: iteration_flag [of a b] split: prod.splits bool.splits)

subsection \<open>main\<close>

text \<open>The state in which the loop is entered, and the option that is never read.\<close>

lemma main_setup_Inr:
  assumes "main_setup D w c = Inr s0"
  shows "open_output w" "open_input w" "audio_mpx_device c = [] \<or> open_mpx w"
    and "mpx_in s0 = replicate BUFFER_SIZE 0"
    and "length (output_buf s0) = BUFFER_SIZE"
    and "length (audio_stereo_input s0) = BUFFER_SIZE * 2"
    and "length (left s0) = BUFFER_SIZE + 64" "length (right s0) = BUFFER_SIZE + 64"
    and "played s0 = []" "stderr s0 = []" "running s0 = (\<not> early_stop w)"
  using assms by (auto simp: main_setup_def construct_def split: if_splits sum.splits)

lemma main_setup_wired:
  assumes "main_setup D w c = Inr s0"
  shows "wired s0"
  using assms
  by (auto simp: main_setup_def wired_def construct_def
                 init_sine_oscillator_def init_lpf_def init_preemphasis_def
           split: if_splits sum.splits)

lemma main_setup_ticks: "main_setup D (w\<lparr>ticks := ts\<rparr>) c = main_setup D w c"
  by (simp add: main_setup_def construct_def split: sum.splits)

lemma main_setup_stereo: "same_but_stereo c d \<Longrightarrow> main_setup D w c = main_setup D w d"
  by (simp add: main_setup_def construct_def same_but_stereo_def split: sum.splits)

lemma getopt_loop_stereo:
  "same_but_stereo c d \<Longrightarrow>
     rel_prod (rel_sum (=) same_but_stereo) (=) (getopt_loop c err argv)
       (getopt_loop d err (filter (\<lambda>x. \<not> stereo_option x) argv))"
proof (induction argv arbitrary: c d err)
  case Nil
  then show ?case by simp
next
  case (Cons x argv)
  show ?case
  proof (cases x)
    case (Opt_s n)
    have "same_but_stereo (c\<lparr>cfg_stereo := n\<rparr>) d"
      using Cons.prems by (simp add: same_but_stereo_def)
    from Cons.IH [OF this] show ?thesis by (simp add: Opt_s stereo_option_def)
  next
    case (Opt_S n)
    have "same_but_stereo (c\<lparr>sample_rate := n\<rparr>) (d\<lparr>sample_rate := n\<rparr>)"
      using Cons.prems by (simp add: same_but_stereo_def)
    from Cons.IH [OF this] show ?thesis by (simp add: Opt_S stereo_option_def)
  next
    case (Opt_i n)
    have "same_but_stereo (c\<lparr>audio_input_device := n\<rparr>) (d\<lparr>audio_input_device := n\<rparr>)"
      using Cons.prems by (simp add: same_but_stereo_def)
    from Cons.IH [OF this] show ?thesis by (simp add: Opt_i stereo_option_def)
  next
    case (Opt_o n)
    have "same_but_stereo (c\<lparr>audio_output_device := n\<rparr>) (d\<lparr>audio_output_device := n\<rparr>)"
      using Cons.prems by (simp add: same_but_stereo_def)
    from Cons.IH [OF this] show ?thesis by (simp add: Opt_o stereo_option_def)
  next
    case (Opt_m n)
    have "same_but_stereo (c\<lparr>audio_mpx_device := n\<rparr>) (d\<lparr>audio_mpx_device := n\<rparr>)"
      using Cons.prems by (simp add: same_but_stereo_def)
    from Cons.IH [OF this] show ?thesis by (simp add: Opt_m stereo_option_def)
  next
    case Opt_h
    then show ?thesis by (simp add: stereo_option_def)
  next
    case Opt_unknown
    from Cons.IH [OF Cons.prems] show ?thesis by (simp add: Opt_unknown stereo_option_def)
  qed
qed

lemma main_ignores_stereo:
  "main D w argv = main D w (filter (\<lambda>x. \<not> stereo_option x) argv)"
proof -
  obtain r err where a: "getopt_loop default_config [] argv = (r, err)"
    by (cases "getopt_loop default_config [] argv")
  obtain r' err' where
    b: "getopt_loop default_config [] (filter (\<lambda>x. \<not> stereo_option x) argv) = (r', err')"
    by (cases "getopt_loop default_config [] (filter (\<lambda>x. \<not> stereo_option x) argv)")
  have "rel_prod (rel_sum (=) same_but_stereo) (=) (getopt_loop default_config [] argv)
          (getopt_loop default_config [] (filter (\<lambda>x. \<not> stereo_option x) argv))"
    by (rule getopt_loop_stereo) (simp add: same_but_stereo_def)
  with a b have r: "rel_sum (=) same_but_stereo r r'" and e: "err' = err" by simp_all
  show ?thesis
  proof (cases r)
    case (Inl code)
    with r show ?thesis by (cases r') (simp_all add: main_def a b e)
  next
    case (Inr c)
    with r obtain d where d: "r' = Inr d" and cd: "same_but_stereo c d"
      by (cases r') simp_all
    from cd have dev: "audio_mpx_device c = audio_mpx_device d"
      by (simp add: same_but_stereo_def)
    show ?thesis
      by (simp add: main_def a b e Inr d main_setup_stereo [OF cd] dev
                    stream_loop_flag [of "cfg_stereo c" _ _ _ "cfg_stereo d"]
               split: sum.splits)
  qed
qed

text \<open>With the devices open, the setup ends in the first constructor that rejects its
  arguments: the oscillator for a non-positive sample rate, the left low-pass filter for
  a positive rate of at most twice the cutoff. A configuration that violates nothing is
  constructed.\<close>

lemma main_setup_devices:
  assumes "\<not> open_output w \<or> \<not> open_input w \<or> (audio_mpx_device c \<noteq> [] \<and> \<not> open_mpx w)"
  shows "main_setup D w c = Inl (Device_failed [Pa_simple_new_failed])"
  using assms by (auto simp: main_setup_def)

lemma main_setup_nonpositive_rate:
  assumes "open_output w" "open_input w" "audio_mpx_device c = [] \<or> open_mpx w"
    and "sample_rate c \<le> 0"
  shows "main_setup D w c = Inl (Construction_failure Nonpositive_frequency_or_rate)"
  using assms by (auto simp: main_setup_def construct_def init_sine_oscillator_def)

lemma main_setup_low_rate:
  assumes "open_output w" "open_input w" "audio_mpx_device c = [] \<or> open_mpx w"
    and "0 < sample_rate c" and "sample_rate c \<le> 30000"
  shows "main_setup D w c = Inl (Construction_failure Cutoff_not_below_nyquist)"
  using assms
  by (auto simp: main_setup_def construct_def init_sine_oscillator_def init_lpf_def)

lemma main_setup_valid:
  assumes "open_output w" "open_input w" "audio_mpx_device c = [] \<or> open_mpx w"
    and "30000 < sample_rate c"
  shows "\<exists>s0. main_setup D w c = Inr s0"
  using assms
  by (auto simp: main_setup_def construct_def init_sine_oscillator_def init_lpf_def
                 init_preemphasis_def)

lemma invalid_configuration_rate: "invalid_configuration c \<longleftrightarrow> sample_rate c \<le> 30000"
  by (auto simp: invalid_configuration_def)

text \<open>Every state at which the loop condition is tested satisfies what the statements
  about a block ask of it.\<close>

lemma reachable_invariants:
  assumes "main_setup D w c = Inr s0"
    and "stream_loop stereo dev s0 ts = (ls, s')"
  shows "wired s'" and "length (output_buf s') = BUFFER_SIZE"
proof -
  show "wired s'"
    using stream_loop_wired [OF assms(2)] main_setup_wired [OF assms(1)] by simp
  from stream_loop_played [OF assms(2)] main_setup_Inr(5) [OF assms(1)]
  show "length (output_buf s') = BUFFER_SIZE" by auto
qed

subsection \<open>The concrete environment\<close>

text \<open>Facts about the concrete values, used where a statement is run on an input.\<close>

lemma buffer_positive: "(0::nat) < BUFFER_SIZE"
  by (simp add: BUFFER_SIZE_def)

lemma fresh_wired: "wired fresh_machine"
  by (simp add: wired_def fresh_machine_def zero_filter_def)

lemma fresh_output_length: "length (output_buf fresh_machine) = BUFFER_SIZE"
  by (simp add: fresh_machine_def)

lemma fresh_lengths:
  "length (audio_stereo_input fresh_machine) = BUFFER_SIZE * 2"
  "length (left fresh_machine) = BUFFER_SIZE + 64"
  "length (right fresh_machine) = BUFFER_SIZE + 64"
  by (simp_all add: fresh_machine_def)

lemma fresh_running: "running fresh_machine"
  by (simp add: fresh_machine_def)

lemma fresh_played: "played fresh_machine = []"
  by (simp add: fresh_machine_def)

lemma fresh_setup: "main_setup plain_designer calm_world default_config = Inr fresh_machine"
  by (simp add: main_setup_def calm_world_def default_config_def fresh_machine_def
        plain_designer_def zero_stack_def zero_filter_def construct_def
        init_sine_oscillator_def init_lpf_def init_preemphasis_def)

lemma pass_through_output: "coeffs f = pass_through \<Longrightarrow> biquad_output f x = x"
  by (simp add: biquad_output_def pass_through_def)

lemma plain_channel:
  "plain_filters s \<Longrightarrow> channel (preemp_l s) (lpf_l s) x = x"
  "plain_filters s \<Longrightarrow> channel (preemp_r s) (lpf_r s) x = x"
  by (simp_all add: plain_filters_def channel_def pass_through_output)

lemma plain_filters_step:
  "plain_filters s \<Longrightarrow> plain_filters (sample_step stereo i (deliver t p s))"
  by (simp add: plain_filters_def sample_step_def apply_biquad_def Let_def deliver_frame)

lemma plain_filters_after: "plain_filters s \<Longrightarrow> plain_filters (after_samples stereo t n s)"
  by (induction n) (simp_all add: after_samples_0 after_samples_Suc plain_filters_step)

lemma fresh_plain: "plain_filters fresh_machine"
  by (simp add: plain_filters_def fresh_machine_def zero_filter_def)

lemma fresh_fetch:
  assumes "input_read t = Some blk"
  shows "\<exists>s2. fetch_block [] t fresh_machine = Inr s2 \<and> wired s2 \<and> plain_filters s2 \<and>
              length (output_buf s2) = BUFFER_SIZE \<and> pilot s2 = pilot fresh_machine \<and>
              mpx_in s2 = replicate BUFFER_SIZE 0 \<and> played s2 = [] \<and> stderr s2 = [] \<and>
              (\<forall>i<BUFFER_SIZE. left s2 ! i = blk (i * 2) \<and> right s2 ! i = blk (i * 2 + 1))"
proof -
  have ok: "input_read t \<noteq> None" "[] = [] \<or> mpx_read t \<noteq> None" using assms by simp_all
  from fetch_block_succeeds [OF ok, of fresh_machine] obtain s2 where
    f: "fetch_block [] t fresh_machine = Inr s2" by blast
  have w2: "wired s2" and p2: "plain_filters s2"
    using fetch_block_Inr(5-9) [OF f] fresh_wired fresh_plain
    by (simp_all add: wired_def plain_filters_def)
  have l2: "length (output_buf s2) = BUFFER_SIZE"
    using fetch_block_Inr(11) [OF f] by (simp add: fresh_output_length)
  have m2: "mpx_in s2 = replicate BUFFER_SIZE 0"
    using fetch_block_Inr(3) [OF f] by (simp add: fresh_machine_def)
  have e2: "played s2 = []" "stderr s2 = []"
    using fetch_block_Inr(12,13) [OF f] by (simp_all add: fresh_machine_def)
  have "left s2 ! i = blk (i * 2) \<and> right s2 ! i = blk (i * 2 + 1)" if "i < BUFFER_SIZE" for i
    using fetch_block_channels [OF f fresh_lengths that] assms by auto
  with f w2 p2 l2 m2 e2 fetch_block_Inr(5) [OF f] show ?thesis by blast
qed

text \<open>What the program plays when the freshly set up machine meets one tick whose calls
  succeed, and then waits: the one processed block.\<close>

lemma fresh_one_block:
  assumes f: "fetch_block [] t fresh_machine = Inr s2" and "output_write t"
    and "stop_signal t = None" and "played s2 = []" and "stderr s2 = []"
  shows "stream_loop stereo [] fresh_machine [t]
           = (Pending, (process_block stereo t s2)\<lparr>played := [output_buf (process_block stereo t s2)]\<rparr>)"
proof -
  have r: "running (process_block stereo t s2)"
    using fetch_block_signal [of "[]" t fresh_machine] f assms(3) fresh_running
    by (auto simp: process_block_after after_samples_flag split: sum.splits prod.splits)
  have p: "played (process_block stereo t s2) = []"
    using assms(4) by (simp add: process_block_after after_samples_frame)
  have "iteration stereo [] t fresh_machine
          = (False, (process_block stereo t s2)\<lparr>played := [output_buf (process_block stereo t s2)]\<rparr>)"
    using f assms(2,3) p
    by (simp add: iteration_def write_output_def Let_def deliver_def)
  with r fresh_running show ?thesis by simp
qed

lemma fresh_main:
  "main plain_designer (calm_world\<lparr>ticks := ts\<rparr>) [] =
     (case stream_loop 1 [] fresh_machine ts of
        (Stopped, s) \<Rightarrow> (Returned 0, played s, stderr s)
      | (Pending, s) \<Rightarrow> (Blocked, played s, stderr s))"
  by (simp add: main_def main_setup_ticks fresh_setup)
       (simp add: default_config_def split: prod.splits loop_state.splits)

lemma fresh_main_mono:
  "main plain_designer (calm_world\<lparr>ticks := ts\<rparr>) [Opt_s 0] =
     (case stream_loop 0 [] fresh_machine ts of
        (Stopped, s) \<Rightarrow> (Returned 0, played s, stderr s)
      | (Pending, s) \<Rightarrow> (Blocked, played s, stderr s))"
proof -
  have "main_setup plain_designer calm_world (default_config\<lparr>cfg_stereo := 0\<rparr>)
          = main_setup plain_designer calm_world default_config"
    by (rule main_setup_stereo) (simp add: same_but_stereo_def)
  then show ?thesis
    by (simp add: main_def main_setup_ticks fresh_setup)
       (simp add: default_config_def split: prod.splits loop_state.splits)
qed

lemma fresh_block:
  assumes f: "fetch_block [] t fresh_machine = Inr s2" and w: "wired s2" and p: "plain_filters s2"
    and len: "length (output_buf s2) = BUFFER_SIZE" and i: "i < BUFFER_SIZE"
    and m: "mpx_in s2 = replicate BUFFER_SIZE 0"
  shows "output_buf (process_block stereo t s2) ! i =
           composite stereo (left s2 ! i) (right s2 ! i)
             (sin (phase (pilot (after_samples stereo t i s2))))
             (sin (2 * phase (pilot (after_samples stereo t i s2)))) 0"
  using block_sample [OF w i len, of stereo t] i
  by (simp add: plain_channel plain_filters_after [OF p] m)

section \<open>The claims\<close>

text \<open>
  Claim C1 (the code departs from it). With stereo enabled the composite is to be
  mono * 0.45 + pilot * 0.09 + stereo_diff * subcarrier * 0.45 plus the external sample,
  also when L = R. Run with the default options (stereo mode 1), pass-through filters and
  no external multiplex device on a block whose left and right samples are all 1, the
  program plays a block of ones: the plain mono value at every sample, without the 0.45
  weight and without any pilot. In the multiplexer alone: at L = R = 1, pilot 1,
  subcarrier 0 the code yields 1, where the specified multiplexer yields 0.45 + 0.09.
\<close>

theorem C1_equal_channels_lose_pilot:
  "main plain_designer (calm_world\<lparr>ticks := [good_tick]\<rparr>) []
     = (Blocked, [replicate BUFFER_SIZE 1], []) \<and>
   composite 1 1 1 1 0 0 = 1 \<and> spec_composite True 1 1 1 0 0 = 27 / 50"
proof -
  have one: "composite 1 1 1 p k 0 = 1" for p k
    by (simp add: composite_unit_channels fadd_def single_1)
  have rd: "input_read good_tick = Some (\<lambda>i. 1)" by (simp add: good_tick_def)
  from fresh_fetch [OF rd] obtain s2 where
    f: "fetch_block [] good_tick fresh_machine = Inr s2" and w: "wired s2"
    and p: "plain_filters s2" and len: "length (output_buf s2) = BUFFER_SIZE"
    and m: "mpx_in s2 = replicate BUFFER_SIZE 0" and e: "played s2 = []" "stderr s2 = []"
    and lr: "\<forall>i<BUFFER_SIZE. left s2 ! i = 1 \<and> right s2 ! i = 1"
    by blast
  have "output_buf (process_block 1 good_tick s2) ! i = 1" if "i < BUFFER_SIZE" for i
    using fresh_block [OF f w p len that m, of 1] lr that by (simp add: one)
  then have blk: "output_buf (process_block 1 good_tick s2) = replicate BUFFER_SIZE 1"
    by (intro nth_equalityI) (simp_all add: process_block_length len)
  have "stream_loop 1 [] fresh_machine [good_tick]
          = (Pending, (process_block 1 good_tick s2)\<lparr>played := [replicate BUFFER_SIZE 1]\<rparr>)"
    using fresh_one_block [OF f _ _ e, of 1] blk by (simp add: good_tick_def)
  moreover have "stderr (process_block 1 good_tick s2) = []"
    using e by (simp add: process_block_after after_samples_frame)
  ultimately have "main plain_designer (calm_world\<lparr>ticks := [good_tick]\<rparr>) []
                     = (Blocked, [replicate BUFFER_SIZE 1], [])"
    by (simp add: fresh_main)
  then show ?thesis by (simp add: one spec_composite_def)
qed

text \<open>
  Claim C2 (the code departs from it). With stereo disabled the composite is to be the
  mono sum plus the external sample, with no pilot and no subcarrier. Run with
  \<open>-s 0\<close>, pass-through filters and no external multiplex device on a block whose left
  samples are 1 and right samples 0, the program plays one block whose first sample is
  half of \<open>0.45f\<close> (the phase is 0 there), not the mono sum 0.5. In the multiplexer alone:
  at stereo = 0, L = 1, R = 0, pilot 1, subcarrier 0 the code yields the single-precision
  value of 0.5 * 0.45 + 0.09, pilot included, where the specified multiplexer yields 0.5.
\<close>

theorem C2_disabled_stereo_keeps_pilot:
  "fst (main plain_designer (calm_world\<lparr>ticks := [wide_tick]\<rparr>) [Opt_s 0]) = Blocked \<and>
   map length (fst (snd (main plain_designer (calm_world\<lparr>ticks := [wide_tick]\<rparr>) [Opt_s 0])))
     = [BUFFER_SIZE] \<and>
   hd (fst (snd (main plain_designer (calm_world\<lparr>ticks := [wide_tick]\<rparr>) [Opt_s 0]))) ! 0
     = 7549747 / 33554432 \<and>
   composite 0 1 0 1 0 0 = 5284823 / 16777216 \<and> spec_composite False 1 0 1 0 0 = 1 / 2"
proof -
  have silent: "composite 0 1 0 0 0 0 = 7549747 / 33554432"
    by (simp add: composite_without_mpx half_mono stereo_mix_silent_pilot)
  have full: "composite 0 1 0 1 0 0 = 5284823 / 16777216"
    by (simp add: composite_without_mpx half_mono stereo_mix_full_pilot)
  have rd: "input_read wide_tick = Some (\<lambda>i. if even i then 1 else 0)"
    by (simp add: wide_tick_def)
  from fresh_fetch [OF rd] obtain s2 where
    f: "fetch_block [] wide_tick fresh_machine = Inr s2" and w: "wired s2"
    and p: "plain_filters s2" and len: "length (output_buf s2) = BUFFER_SIZE"
    and ph: "pilot s2 = pilot fresh_machine"
    and m: "mpx_in s2 = replicate BUFFER_SIZE 0" and e: "played s2 = []" "stderr s2 = []"
    and lr: "\<forall>i<BUFFER_SIZE. left s2 ! i = (if even (i * 2) then 1 else 0) \<and>
                             right s2 ! i = (if even (i * 2 + 1) then 1 else 0)"
    by blast
  have "phase (pilot s2) = 0" by (simp add: ph fresh_machine_def)
  then have first: "output_buf (process_block 0 wide_tick s2) ! 0 = 7549747 / 33554432"
    using fresh_block [OF f w p len buffer_positive m, of 0] lr buffer_positive
    by (simp add: after_samples_0 silent)
  have "stream_loop 0 [] fresh_machine [wide_tick]
          = (Pending, (process_block 0 wide_tick s2)
                        \<lparr>played := [output_buf (process_block 0 wide_tick s2)]\<rparr>)"
    using fresh_one_block [OF f _ _ e, of 0] by (simp add: wide_tick_def good_tick_def)
  then show ?thesis
    using first
    by (simp add: fresh_main_mono process_block_length len full spec_composite_def)
qed

text \<open>
  Claim C3 (as stated, it fails). In the sample loop the branch between the stereo formula
  and the plain mono output is to include the pilot and subcarrier terms whenever the two
  filtered outputs of a sample differ. The branch tests the halved difference as
  single-precision arithmetic computes it, and that underflows: with L = 2^-149, the
  smallest positive single-precision number, and R = 0 the outputs differ, yet
  \<open>(L - R) / 2.0f\<close> is a tie between 0 and 2^-149 and rounds to 0, so the mono branch is
  taken: the composite is 0, where the stereo formula with pilot 1 gives the
  single-precision value of 0.09. The same happens between the two normal numbers
  2^-126 + 2^-149 and 2^-126. Run with the default options, pass-through filters and no
  external multiplex device on a block whose left samples are 2^-149 and right samples
  0, the program plays a block of zeros, without any pilot.
\<close>

theorem C3_faint_difference_takes_the_mono_branch:
  "(1 / 2 ^ 149 :: real) \<noteq> 0 \<and> single (1 / 2 ^ 149) = 1 / 2 ^ 149 \<and>
   stereo_diff (1 / 2 ^ 149) 0 = 0 \<and>
   composite 1 (1 / 2 ^ 149) 0 1 1 0 = 0 \<and>
   fadd (stereo_mix (1 / 2 ^ 149) 0 1 1) 0 = 3019899 / 33554432 \<and>
   composite 1 (1 / 2 ^ 149) 0 1 1 0 \<noteq> fadd (stereo_mix (1 / 2 ^ 149) 0 1 1) 0 \<and>
   (1 / 2 ^ 126 + 1 / 2 ^ 149 :: real) \<noteq> 1 / 2 ^ 126 \<and>
   single (1 / 2 ^ 126 + 1 / 2 ^ 149) = 1 / 2 ^ 126 + 1 / 2 ^ 149 \<and>
   single (1 / 2 ^ 126) = 1 / 2 ^ 126 \<and>
   stereo_diff (1 / 2 ^ 126 + 1 / 2 ^ 149) (1 / 2 ^ 126) = 0 \<and>
   composite 1 (1 / 2 ^ 126 + 1 / 2 ^ 149) (1 / 2 ^ 126) 1 1 0
     = mono_sum (1 / 2 ^ 126 + 1 / 2 ^ 149) (1 / 2 ^ 126) \<and>
   main plain_designer (calm_world\<lparr>ticks := [faint_tick]\<rparr>) []
     = (Blocked, [replicate BUFFER_SIZE 0], [])"
proof -
  have zero: "composite 1 (1 / 2 ^ 149) 0 p k 0 = 0" for p k
    by (simp only: composite_without_mpx faint_difference) simp
  have mix: "fadd (stereo_mix (1 / 2 ^ 149) 0 1 1) 0 = 3019899 / 33554432"
    by (simp only: faint_difference fadd_zero single_pilot_weight)
  have a: "single (1 / 2 ^ 126 + 1 / 2 ^ 149) = 1 / 2 ^ 126 + 1 / 2 ^ 149"
    using single_mantissa [of 8388609 "- 126"] by (simp add: powr_minus)
  have b: "single (1 / 2 ^ 126) = 1 / 2 ^ 126"
    using single_mantissa [of 8388608 "- 126"] by (simp add: powr_minus)
  have d: "stereo_diff (1 / 2 ^ 126 + 1 / 2 ^ 149) (1 / 2 ^ 126) = 0"
    by (simp add: stereo_diff_zero)
  have m: "composite 1 (1 / 2 ^ 126 + 1 / 2 ^ 149) (1 / 2 ^ 126) 1 1 0
             = mono_sum (1 / 2 ^ 126 + 1 / 2 ^ 149) (1 / 2 ^ 126)"
    by (simp only: composite_without_mpx d) simp
  have rd: "input_read faint_tick = Some (\<lambda>i. if even i then 1 / 2 ^ 149 else 0)"
    by (simp add: faint_tick_def)
  from fresh_fetch [OF rd] obtain s2 where
    f: "fetch_block [] faint_tick fresh_machine = Inr s2" and w: "wired s2"
    and p: "plain_filters s2" and len: "length (output_buf s2) = BUFFER_SIZE"
    and mp: "mpx_in s2 = replicate BUFFER_SIZE 0" and e: "played s2 = []" "stderr s2 = []"
    and lr: "\<forall>i<BUFFER_SIZE. left s2 ! i = (if even (i * 2) then 1 / 2 ^ 149 else 0) \<and>
                             right s2 ! i = (if even (i * 2 + 1) then 1 / 2 ^ 149 else 0)"
    by blast
  have "output_buf (process_block 1 faint_tick s2) ! i = 0" if "i < BUFFER_SIZE" for i
  proof -
    from lr that have "left s2 ! i = 1 / 2 ^ 149" "right s2 ! i = 0" by simp_all
    with fresh_block [OF f w p len that mp, of 1] show ?thesis by (simp only: zero)
  qed
  then have blk: "output_buf (process_block 1 faint_tick s2) = replicate BUFFER_SIZE 0"
    by (intro nth_equalityI) (simp_all add: process_block_length len)
  have "stream_loop 1 [] fresh_machine [faint_tick]
          = (Pending, (process_block 1 faint_tick s2)\<lparr>played := [replicate BUFFER_SIZE 0]\<rparr>)"
    using fresh_one_block [OF f _ _ e, of 1] blk by (simp add: faint_tick_def good_tick_def)
  moreover have "stderr (process_block 1 faint_tick s2) = []"
    using e by (simp add: process_block_after after_samples_frame)
  ultimately have run: "main plain_designer (calm_world\<lparr>ticks := [faint_tick]\<rparr>) []
                     = (Blocked, [replicate BUFFER_SIZE 0], [])"
    by (simp add: fresh_main)
  have n: "(1 / 2 ^ 149 :: real) \<noteq> 0" "(1 / 2 ^ 126 + 1 / 2 ^ 149 :: real) \<noteq> 1 / 2 ^ 126"
    by simp_all
  have ne: "composite 1 (1 / 2 ^ 149) 0 1 1 0 \<noteq> fadd (stereo_mix (1 / 2 ^ 149) 0 1 1) 0"
    by (simp only: zero mix)
  from n single_least faint_difference(1) zero [of 1 1] mix ne a b d m run
  show ?thesis by blast
qed

text \<open>
  Claim C3, amended. In the sample loop the branch between the stereo formula and the
  plain mono output tests the stereo difference just computed from the two low-pass
  outputs, the single-precision value of (L - R) / 2, not the command-line flag. For
  finite values that difference is zero exactly when L and R differ by less than
  3 * 2^-150 (two single-precision numbers that close are equal or 2^-149 apart): then,
  and in particular when the two outputs are equal, the composite is the mono value
  (plus the external sample) with no pilot; when they are at least that far apart the
  pilot and subcarrier terms are included; and neither the block nor the run of the
  program depends on the value given to the stereo option.
\<close>

theorem C3_branch_tests_the_rounded_stereo_difference:
  assumes "wired s" and "i < BUFFER_SIZE" and "length (output_buf s) = BUFFER_SIZE"
  shows "(let si = after_samples stereo t i s;
              L = channel (preemp_l si) (lpf_l si) (left s ! i);
              R = channel (preemp_r si) (lpf_r si) (right s ! i);
              p = sin (phase (pilot si));
              k = sin (2 * phase (pilot si));
              out = output_buf (process_block stereo t s) ! i
          in out = fadd (if stereo_diff L R \<noteq> 0 then stereo_mix L R p k else mono_sum L R)
                        (mpx_in s ! i) \<and>
             (stereo_diff L R = 0 \<longleftrightarrow> \<bar>L - R\<bar> < 3 / 2 ^ 150) \<and>
             (L = R \<longrightarrow> out = fadd (mono_sum L R) (mpx_in s ! i)) \<and>
             (\<bar>L - R\<bar> < 3 / 2 ^ 150 \<longrightarrow> out = fadd (mono_sum L R) (mpx_in s ! i)) \<and>
             (3 / 2 ^ 150 \<le> \<bar>L - R\<bar> \<longrightarrow> out = fadd (stereo_mix L R p k) (mpx_in s ! i))) \<and>
         process_block stereo t s = process_block stereo' t s \<and>
         main D w argv = main D w (filter (\<lambda>x. \<not> stereo_option x) argv)"
proof -
  have "process_block stereo t s = process_block stereo' t s"
    by (simp add: process_block_flag [of stereo stereo'])
  moreover have "main D w argv = main D w (filter (\<lambda>x. \<not> stereo_option x) argv)"
    by (rule main_ignores_stereo)
  moreover have "stereo_diff L R = 0" if "L = R" for L R :: real
    using that by (simp add: stereo_diff_self)
  moreover have "stereo_diff L R \<noteq> 0" if "3 / 2 ^ 150 \<le> \<bar>L - R\<bar>" for L R :: real
    using that stereo_diff_zero [of L R] by linarith
  moreover have "stereo_diff L R = 0" if "\<bar>L - R\<bar> < 3 / 2 ^ 150" for L R :: real
    using that stereo_diff_zero [of L R] by blast
  ultimately show ?thesis
    using block_sample [OF assms, of stereo t]
    by (simp add: Let_def composite_branches stereo_diff_zero)
qed

text \<open>The first sample of two blocks in the freshly set up program: of a silent block,
  where both channels are 0 and the mono branch gives 0, and of a block just read whose
  left samples are 1 and right samples 0, where the stereo branch gives half of
  \<open>0.45f\<close> (the phase is 0 there).\<close>

theorem C3_witness:
  "wired fresh_machine \<and> (0::nat) < BUFFER_SIZE \<and>
   length (output_buf fresh_machine) = BUFFER_SIZE \<and>
   \<bar>0 - 0 :: real\<bar> < 3 / 2 ^ 150 \<and>
   output_buf (process_block 0 good_tick fresh_machine) ! 0 = 0 \<and>
   process_block 0 good_tick fresh_machine = process_block 1 good_tick fresh_machine \<and>
   (\<exists>s2. fetch_block [] wide_tick fresh_machine = Inr s2 \<and> wired s2 \<and>
         length (output_buf s2) = BUFFER_SIZE \<and> (3 / 2 ^ 150 :: real) \<le> \<bar>1 - 0\<bar> \<and>
         output_buf (process_block 1 wide_tick s2) ! 0 = 7549747 / 33554432)"
proof -
  have l: "left fresh_machine ! 0 = 0" "right fresh_machine ! 0 = 0" "mpx_in fresh_machine ! 0 = 0"
    using buffer_positive by (simp_all add: fresh_machine_def nth_append)
  have c: "channel (preemp_l fresh_machine) (lpf_l fresh_machine) 0 = 0"
          "channel (preemp_r fresh_machine) (lpf_r fresh_machine) 0 = 0"
    by (simp_all add: plain_channel fresh_plain)
  have z: "fadd (mono_sum 0 0) 0 = 0"
    by (simp add: unit_mono fadd_zero single_zero)
  have first: "output_buf (process_block 0 good_tick fresh_machine) ! 0 = 0 \<and>
               process_block 0 good_tick fresh_machine = process_block 1 good_tick fresh_machine"
    using C3_branch_tests_the_rounded_stereo_difference
            [OF fresh_wired buffer_positive fresh_output_length,
             of 0 good_tick 1 plain_designer calm_world "[]"]
    by (auto simp: after_samples_0 Let_def l c z)
  have rd: "input_read wide_tick = Some (\<lambda>i. if even i then 1 else 0)"
    by (simp add: wide_tick_def)
  from fresh_fetch [OF rd] obtain s2 where
    f: "fetch_block [] wide_tick fresh_machine = Inr s2" and w: "wired s2"
    and p: "plain_filters s2" and len: "length (output_buf s2) = BUFFER_SIZE"
    and ph: "pilot s2 = pilot fresh_machine"
    and m: "mpx_in s2 = replicate BUFFER_SIZE 0"
    and lr: "\<forall>i<BUFFER_SIZE. left s2 ! i = (if even (i * 2) then 1 else 0) \<and>
                             right s2 ! i = (if even (i * 2 + 1) then 1 else 0)"
    by blast
  have l2: "left s2 ! 0 = 1" "right s2 ! 0 = 0" "mpx_in s2 ! 0 = 0"
    using lr buffer_positive by (simp_all add: m)
  have c2: "channel (preemp_l s2) (lpf_l s2) 1 = 1" "channel (preemp_r s2) (lpf_r s2) 0 = 0"
    by (simp_all add: plain_channel p)
  have p2: "phase (pilot s2) = 0" by (simp add: ph fresh_machine_def)
  have far: "(3 / 2 ^ 150 :: real) \<le> \<bar>1 - 0\<bar>" by simp
  have v: "fadd (stereo_mix 1 0 0 0) 0 = 7549747 / 33554432"
    by (simp only: stereo_mix_silent_pilot fadd_zero single_half_weight)
  have second: "output_buf (process_block 1 wide_tick s2) ! 0 = 7549747 / 33554432"
    using C3_branch_tests_the_rounded_stereo_difference
            [OF w buffer_positive len, of 1 wide_tick 1 plain_designer calm_world "[]"] far
    by (simp add: after_samples_0 Let_def l2 c2 p2 v)
  from first second f w len far fresh_wired buffer_positive fresh_output_length
  show ?thesis by auto
qed

text \<open>
  Claim C4. For every sample index of a block, the pilot sample and the subcarrier sample
  are both taken from the phase the oscillator has before that sample's advance: the
  composite is formed with sin(phase) and sin(2 * phase) of the phase reached by one
  advance per earlier sample, the oscillator's output cell holds sin(2 * phase) of that
  same phase after the sample, and the sample advances the oscillator exactly once.
\<close>

theorem C4_harmonics_read_before_the_single_advance:
  assumes "wired s" and "i < BUFFER_SIZE" and "length (output_buf s) = BUFFER_SIZE"
  shows "(let si = after_samples stereo t i s;
              ph = phase (pilot si)
          in pilot si = (advance_sine_oscillator ^^ i) (pilot s) \<and>
             output_buf (process_block stereo t s) ! i =
               composite stereo (channel (preemp_l si) (lpf_l si) (left s ! i))
                                (channel (preemp_r si) (lpf_r si) (right s ! i))
                                (sin ph) (sin (2 * ph)) (mpx_in s ! i) \<and>
             mem (after_samples stereo t (Suc i) s) Pilot_sample = sin (2 * ph) \<and>
             pilot (after_samples stereo t (Suc i) s) = advance_sine_oscillator (pilot si)) \<and>
         pilot (process_block stereo t s) = (advance_sine_oscillator ^^ BUFFER_SIZE) (pilot s)"
proof -
  let ?si = "after_samples stereo t i s"
  have w: "wired (deliver t (At_sample i) ?si)"
    using assms(1) by (simp add: deliver_wired after_samples_wired)
  have cell: "mem (after_samples stereo t (Suc i) s) Pilot_sample = sin (2 * phase (pilot ?si))"
    using sample_step_cell [OF w, of stereo i] by (simp add: after_samples_Suc deliver_frame)
  have adv: "pilot (after_samples stereo t (Suc i) s) = advance_sine_oscillator (pilot ?si)"
    by (simp add: after_samples_Suc sample_step_frame deliver_frame)
  show ?thesis
    using block_sample [OF assms, of stereo t] cell adv
    by (simp add: Let_def after_samples_pilot process_block_after)
qed

text \<open>The first sample of a silent block in the freshly set up program: the phase is 0,
  so the cell holds sin 0 after it.\<close>

theorem C4_witness:
  "wired fresh_machine \<and> (0::nat) < BUFFER_SIZE \<and>
   length (output_buf fresh_machine) = BUFFER_SIZE \<and>
   mem (after_samples 1 good_tick (Suc 0) fresh_machine) Pilot_sample = 0 \<and>
   pilot (after_samples 1 good_tick (Suc 0) fresh_machine) =
     advance_sine_oscillator (pilot fresh_machine)"
proof -
  have p: "phase (pilot fresh_machine) = 0" by (simp add: fresh_machine_def)
  show ?thesis
    using C4_harmonics_read_before_the_single_advance
            [OF fresh_wired buffer_positive fresh_output_length, of 1 good_tick]
    by (simp add: fresh_wired buffer_positive fresh_output_length after_samples_0 Let_def p)
qed

text \<open>
  Claim C5 (as stated, it fails). The composite computed with the external multiplex sample
  X minus the composite computed with the external sample 0 is to be exactly X. At
  L = R = 1 the composite without an external sample is 1; with X = 2^-25, itself a
  single-precision number, the addition of line 195 rounds 1 + X back to 1, so the
  difference is 0.
\<close>

theorem C5_small_external_sample_is_absorbed:
  "single (1 / 2 ^ 25) = 1 / 2 ^ 25 \<and>
   composite 1 1 1 0 0 (1 / 2 ^ 25) = 1 \<and> composite 1 1 1 0 0 0 = 1 \<and>
   composite 1 1 1 0 0 (1 / 2 ^ 25) - composite 1 1 1 0 0 0 \<noteq> 1 / 2 ^ 25"
  by (simp add: composite_unit_channels fadd_def single_1 single_one_and_tiny single_tiny)

text \<open>
  Claim C5, amended. For every sample, every L and R and every value of the stereo flag,
  the composite computed with the external multiplex sample X is the single-precision sum
  of the composite computed with the external sample 0 and X, so the two differ by X
  exactly whenever that sum needs no rounding. The external sample is added after, and
  outside, the stereo branch; in every sample of a block, changing the external block
  changes nothing in the filters or the oscillator.
\<close>

theorem C5_external_sample_is_added_last:
  assumes "wired s" and "i < BUFFER_SIZE" and "length (output_buf s) = BUFFER_SIZE"
  shows "composite stereo l r p k x = fadd (composite stereo l r p k 0) x \<and>
         (single (composite stereo l r p k 0 + x) = composite stereo l r p k 0 + x \<longrightarrow>
            composite stereo l r p k x - composite stereo l r p k 0 = x) \<and>
         output_buf (process_block stereo t (s\<lparr>mpx_in := m\<rparr>)) ! i =
           fadd (output_buf (process_block stereo t (s\<lparr>mpx_in := replicate BUFFER_SIZE 0\<rparr>)) ! i)
                (m ! i)"
proof -
  let ?a = "s\<lparr>mpx_in := m\<rparr>" and ?b = "s\<lparr>mpx_in := replicate BUFFER_SIZE 0\<rparr>"
  have ab: "same_dsp ?a ?b" by (simp add: same_dsp_def)
  have wa: "wired ?a" and wb: "wired ?b" using assms(1) by (simp_all add: wired_def)
  have la: "length (output_buf ?a) = BUFFER_SIZE" and lb: "length (output_buf ?b) = BUFFER_SIZE"
    using assms(3) by simp_all
  from same_dsp_after [OF ab, of stereo t i stereo t]
  have eq: "pilot (after_samples stereo t i ?a) = pilot (after_samples stereo t i ?b)"
    "preemp_l (after_samples stereo t i ?a) = preemp_l (after_samples stereo t i ?b)"
    "preemp_r (after_samples stereo t i ?a) = preemp_r (after_samples stereo t i ?b)"
    "lpf_l (after_samples stereo t i ?a) = lpf_l (after_samples stereo t i ?b)"
    "lpf_r (after_samples stereo t i ?a) = lpf_r (after_samples stereo t i ?b)"
    by (simp_all add: same_dsp_def)
  have one: "composite stereo l r p k x = fadd (composite stereo l r p k 0) x" for l r p k x
    by (rule composite_adds_mpx)
  have two: "composite stereo l r p k x - composite stereo l r p k 0 = x"
    if "single (composite stereo l r p k 0 + x) = composite stereo l r p k 0 + x"
    using that one [of l r p k x] by (simp add: fadd_def)
  have "output_buf (process_block stereo t ?a) ! i =
          fadd (output_buf (process_block stereo t ?b) ! i) (m ! i)"
    using assms(2)
    by (simp add: block_sample [OF wa assms(2) la] block_sample [OF wb assms(2) lb] eq
                  one [symmetric])
  with one [of l r p k x] two show ?thesis by blast
qed

text \<open>At L = R = 1 the composite without an external sample is 1; adding the external
  sample 1 gives 2, which needs no rounding.\<close>

theorem C5_witness:
  "wired fresh_machine \<and> (0::nat) < BUFFER_SIZE \<and>
   length (output_buf fresh_machine) = BUFFER_SIZE \<and>
   single (composite 1 1 1 0 0 0 + 1) = composite 1 1 1 0 0 0 + 1 \<and>
   composite 1 1 1 0 0 1 - composite 1 1 1 0 0 0 = 1"
proof -
  have c: "composite 1 1 1 0 0 0 = 1"
    by (simp add: composite_unit_channels fadd_def single_1)
  have h: "single (composite 1 1 1 0 0 0 + 1) = composite 1 1 1 0 0 0 + 1"
    by (simp add: c single_2)
  from C5_external_sample_is_added_last [OF fresh_wired buffer_positive fresh_output_length,
         of 1 1 1 0 0 1] h
  have "composite 1 1 1 0 0 1 - composite 1 1 1 0 0 0 = 1" by blast
  with fresh_wired buffer_positive fresh_output_length h show ?thesis by blast
qed

text \<open>
  Claim C6. When a device call of an iteration fails (the input read, the external
  multiplex read when that device is configured, or the output write), the loop stops at
  once: the state after the loop is reached whatever the environment would offer next,
  the flag is cleared, one message is printed and nothing is added to what has been
  played. An iteration either plays nothing, and then a call has failed, or plays exactly
  the whole processed block; every block the loop ever plays has the full length.
\<close>

theorem C6_io_failure_stops_without_output:
  "(running s \<and> io_fails dev t \<longrightarrow>
      (\<exists>s'. stream_loop stereo dev s (t # ts) = (Stopped, s') \<and> played s' = played s \<and>
            \<not> running s' \<and> (\<exists>d. stderr s' = stderr s @ [d]))) \<and>
   (case iteration stereo dev t s of
      (True, s') \<Rightarrow> io_fails dev t \<and> played s' = played s
    | (False, s') \<Rightarrow>
        \<not> io_fails dev t \<and>
        (\<exists>s2. fetch_block dev t s = Inr s2 \<and>
              played s' = played s @ [output_buf (process_block stereo t s2)] \<and>
              length (output_buf (process_block stereo t s2)) = length (output_buf s))) \<and>
   (\<forall>ls s'. stream_loop stereo dev s ts = (ls, s') \<longrightarrow>
      (\<exists>new. played s' = played s @ new \<and>
             (\<forall>b \<in> set new. length b = length (output_buf s))))"
proof (intro conjI impI allI)
  assume a: "running s \<and> io_fails dev t"
  obtain brk s1 where it: "iteration stereo dev t s = (brk, s1)"
    by (cases "iteration stereo dev t s")
  with a iteration_fst [of stereo dev t s] have brk: "brk" by simp
  with it have it': "iteration stereo dev t s = (True, s1)" by simp
  have "stream_loop stereo dev s (t # ts) = (Stopped, s1)"
    using a it' by simp
  with iteration_break(1,2,4) [OF it']
  show "\<exists>s'. stream_loop stereo dev s (t # ts) = (Stopped, s') \<and> played s' = played s \<and>
             \<not> running s' \<and> (\<exists>d. stderr s' = stderr s @ [d])"
    by blast
next
  obtain brk s1 where it: "iteration stereo dev t s = (brk, s1)"
    by (cases "iteration stereo dev t s")
  show "case iteration stereo dev t s of
          (True, s') \<Rightarrow> io_fails dev t \<and> played s' = played s
        | (False, s') \<Rightarrow>
            \<not> io_fails dev t \<and>
            (\<exists>s2. fetch_block dev t s = Inr s2 \<and>
                  played s' = played s @ [output_buf (process_block stereo t s2)] \<and>
                  length (output_buf (process_block stereo t s2)) = length (output_buf s))"
  proof (cases brk)
    case True
    with it iteration_fst [of stereo dev t s] iteration_break(1) [of stereo dev t s s1]
    show ?thesis by simp
  next
    case False
    with it have it': "iteration stereo dev t s = (False, s1)" by simp
    from iteration_continue(1) [OF it'] obtain s2 where
      f: "fetch_block dev t s = Inr s2"
      and p: "played s1 = played s @ [output_buf (process_block stereo t s2)]" by blast
    have "length (output_buf (process_block stereo t s2)) = length (output_buf s)"
      using fetch_block_Inr(11) [OF f] by (simp add: process_block_length)
    with f p it' iteration_fst [of stereo dev t s] show ?thesis by simp
  qed
next
  fix ls s'
  assume "stream_loop stereo dev s ts = (ls, s')"
  from stream_loop_played [OF this]
  show "\<exists>new. played s' = played s @ new \<and> (\<forall>b \<in> set new. length b = length (output_buf s))"
    by blast
qed

text \<open>The input read of the first iteration fails in the freshly set up program; a
  second tick, in which every call would succeed, is never used.\<close>

theorem C6_witness:
  "running fresh_machine \<and> io_fails [] bad_tick \<and>
   fst (stream_loop 1 [] fresh_machine [bad_tick, good_tick]) = Stopped \<and>
   played (snd (stream_loop 1 [] fresh_machine [bad_tick, good_tick])) = [] \<and>
   \<not> running (snd (stream_loop 1 [] fresh_machine [bad_tick, good_tick]))"
proof -
  have f: "io_fails [] bad_tick"
    by (simp add: io_fails_def bad_tick_def good_tick_def)
  from C6_io_failure_stops_without_output [of fresh_machine "[]" bad_tick 1 "[good_tick]"]
       fresh_running f
  obtain s' where "stream_loop 1 [] fresh_machine [bad_tick, good_tick] = (Stopped, s')"
    "played s' = played fresh_machine" "\<not> running s'"
    by blast
  with fresh_running f fresh_played show ?thesis by simp
qed

text \<open>
  Claim C7. When no external multiplex device is configured (its name is empty), the
  external multiplex buffer holds zero at every index at every iteration boundary and
  after the reads of every iteration: it is zero when the loop is entered and nothing
  writes to it. Adding it therefore leaves the composite sample as the stereo branch
  left it.
\<close>

theorem C7_unconfigured_mpx_buffer_stays_zero:
  assumes "main_setup D w c = Inr s0" and "audio_mpx_device c = []"
    and "stream_loop (cfg_stereo c) (audio_mpx_device c) s0 ts = (ls, s')"
  shows "mpx_in s' = replicate BUFFER_SIZE 0 \<and>
         (\<forall>t s2. fetch_block (audio_mpx_device c) t s' = Inr s2 \<longrightarrow>
                 mpx_in s2 = replicate BUFFER_SIZE 0 \<and>
                 mpx_in (process_block (cfg_stereo c) t s2) = replicate BUFFER_SIZE 0) \<and>
         (\<forall>i<BUFFER_SIZE. mpx_in s' ! i = 0 \<and>
            (\<forall>l r p k. composite (cfg_stereo c) l r p k (mpx_in s' ! i) =
               (if stereo_diff l r \<noteq> 0 then stereo_mix l r p k else mono_sum l r)))"
proof -
  have z: "mpx_in s' = replicate BUFFER_SIZE 0"
    using stream_loop_mpx [of "cfg_stereo c" s0 ts ls s'] assms main_setup_Inr(4) [OF assms(1)]
    by simp
  have "mpx_in s2 = replicate BUFFER_SIZE 0 \<and>
        mpx_in (process_block (cfg_stereo c) t s2) = replicate BUFFER_SIZE 0"
    if "fetch_block (audio_mpx_device c) t s' = Inr s2" for t s2
    using fetch_block_Inr(3) [OF that] assms(2) z
    by (simp add: process_block_after after_samples_frame)
  with z show ?thesis
    by (simp add: composite_without_mpx)
qed

text \<open>The default configuration, whose external multiplex device name is empty.\<close>

theorem C7_witness:
  "main_setup plain_designer calm_world default_config = Inr fresh_machine \<and>
   audio_mpx_device default_config = [] \<and>
   stream_loop (cfg_stereo default_config) (audio_mpx_device default_config) fresh_machine []
     = (Pending, fresh_machine) \<and>
   mpx_in fresh_machine = replicate BUFFER_SIZE 0 \<and>
   composite (cfg_stereo default_config) 1 0 1 0 (mpx_in fresh_machine ! 0) = 5284823 / 16777216"
proof -
  have d: "audio_mpx_device default_config = []" by (simp add: default_config_def)
  have l: "stream_loop (cfg_stereo default_config) (audio_mpx_device default_config)
             fresh_machine [] = (Pending, fresh_machine)"
    by (simp add: fresh_running)
  note th = C7_unconfigured_mpx_buffer_stays_zero [OF fresh_setup d l]
  from th have z: "mpx_in fresh_machine = replicate BUFFER_SIZE 0" by blast
  from th buffer_positive
  have "composite (cfg_stereo default_config) 1 0 1 0 (mpx_in fresh_machine ! 0) =
          (if stereo_diff 1 0 \<noteq> 0 then stereo_mix 1 0 1 0 else mono_sum 1 0)"
    by blast
  then have v: "composite (cfg_stereo default_config) 1 0 1 0 (mpx_in fresh_machine ! 0)
                  = 5284823 / 16777216"
    by (simp add: half_mono stereo_mix_full_pilot)
  from fresh_setup d l z v show ?thesis by (simp add: fresh_running)
qed

text \<open>
  Claim C8. In every block the left channel takes the even-indexed and the right channel
  the odd-indexed values of the interleaved input (left[i] = input[2i],
  right[i] = input[2i+1] for every i below the block length), and every channel sample
  passes through that channel's preemphasis filter first and the result through that
  channel's low-pass filter, whose output enters the composite.
\<close>

theorem C8_deinterleave_preemphasis_lowpass:
  assumes "fetch_block dev t s = Inr s2" and "wired s"
    and "length (audio_stereo_input s) = BUFFER_SIZE * 2"
    and "length (left s) = BUFFER_SIZE + 64" and "length (right s) = BUFFER_SIZE + 64"
    and "length (output_buf s) = BUFFER_SIZE" and "i < BUFFER_SIZE"
  shows "(\<exists>blk. input_read t = Some blk \<and>
                left s2 ! i = blk (i * 2) \<and> right s2 ! i = blk (i * 2 + 1)) \<and>
         left s2 ! i = audio_stereo_input s2 ! (i * 2) \<and>
         right s2 ! i = audio_stereo_input s2 ! (i * 2 + 1) \<and>
         (let si = after_samples stereo t i s2;
              sj = after_samples stereo t (Suc i) s2
          in x1 (preemp_l sj) = left s2 ! i \<and> x1 (preemp_r sj) = right s2 ! i \<and>
             x1 (lpf_l sj) = biquad_output (preemp_l si) (left s2 ! i) \<and>
             x1 (lpf_r sj) = biquad_output (preemp_r si) (right s2 ! i) \<and>
             output_buf (process_block stereo t s2) ! i =
               composite stereo
                 (biquad_output (lpf_l si)
                    (biquad_output (preemp_l si) (audio_stereo_input s2 ! (i * 2))))
                 (biquad_output (lpf_r si)
                    (biquad_output (preemp_r si) (audio_stereo_input s2 ! (i * 2 + 1))))
                 (sin (phase (pilot si))) (sin (2 * phase (pilot si))) (mpx_in s2 ! i))"
proof -
  note f = assms(1)
  from fetch_block_Inr(1) [OF f] obtain blk where
    blk: "input_read t = Some blk"
    and inp: "audio_stereo_input s2 = map blk [0..<length (audio_stereo_input s)]" by blast
  have un: "uninterleave (audio_stereo_input s2) (left s) (right s) (BUFFER_SIZE * 2)
              = (left s2, right s2)"
    using fetch_block_Inr(4) [OF f] by simp
  have l: "left s2 ! i = audio_stereo_input s2 ! (i * 2)"
    using uninterleave_main(3) [OF un, of i] assms(4,7) by simp
  have r: "right s2 ! i = audio_stereo_input s2 ! (i * 2 + 1)"
    using uninterleave_main(4) [OF un, of i] assms(5,7) by simp
  have b: "audio_stereo_input s2 ! (i * 2) = blk (i * 2)"
          "audio_stereo_input s2 ! (i * 2 + 1) = blk (i * 2 + 1)"
    using assms(3,7) by (simp_all add: inp)
  have w2: "wired s2"
    using fetch_block_Inr(5-9) [OF f] assms(2) by (simp add: wired_def)
  have len2: "length (output_buf s2) = BUFFER_SIZE"
    using fetch_block_Inr(11) [OF f] assms(6) by simp
  let ?si = "after_samples stereo t i s2"
  have wi: "wired (deliver t (At_sample i) ?si)"
    using w2 by (simp add: deliver_wired after_samples_wired)
  note fl = sample_step_filters [OF wi, of stereo i]
  have x: "x1 (preemp_l (after_samples stereo t (Suc i) s2)) = left s2 ! i"
          "x1 (preemp_r (after_samples stereo t (Suc i) s2)) = right s2 ! i"
          "x1 (lpf_l (after_samples stereo t (Suc i) s2)) = biquad_output (preemp_l ?si) (left s2 ! i)"
          "x1 (lpf_r (after_samples stereo t (Suc i) s2)) = biquad_output (preemp_r ?si) (right s2 ! i)"
    using fl(1-4) by (simp_all add: after_samples_Suc deliver_frame after_samples_frame)
  have out: "output_buf (process_block stereo t s2) ! i =
               composite stereo
                 (biquad_output (lpf_l ?si) (biquad_output (preemp_l ?si) (left s2 ! i)))
                 (biquad_output (lpf_r ?si) (biquad_output (preemp_r ?si) (right s2 ! i)))
                 (sin (phase (pilot ?si))) (sin (2 * phase (pilot ?si))) (mpx_in s2 ! i)"
    using block_sample [OF w2 assms(7) len2, of stereo t] by (simp add: channel_def)
  show ?thesis
    using blk l r b x out by (simp add: Let_def)
qed

text \<open>The freshly set up program reads a block whose every value is 1.\<close>

theorem C8_witness:
  "(\<exists>s2. fetch_block [] good_tick fresh_machine = Inr s2 \<and>
         left s2 ! 0 = 1 \<and> right s2 ! 0 = 1) \<and>
   wired fresh_machine \<and>
   length (audio_stereo_input fresh_machine) = BUFFER_SIZE * 2 \<and>
   length (left fresh_machine) = BUFFER_SIZE + 64 \<and>
   length (right fresh_machine) = BUFFER_SIZE + 64 \<and>
   length (output_buf fresh_machine) = BUFFER_SIZE \<and> (0::nat) < BUFFER_SIZE"
proof -
  have ok: "input_read good_tick \<noteq> None" "[] = [] \<or> mpx_read good_tick \<noteq> None"
    by (simp_all add: good_tick_def)
  from fetch_block_succeeds [OF ok, of fresh_machine] obtain s2 where
    f: "fetch_block [] good_tick fresh_machine = Inr s2" by blast
  from C8_deinterleave_preemphasis_lowpass
         [OF f fresh_wired fresh_lengths fresh_output_length buffer_positive, of 1]
  have "left s2 ! 0 = 1 \<and> right s2 ! 0 = 1"
    by (auto simp: good_tick_def)
  with f fresh_wired fresh_lengths fresh_output_length buffer_positive show ?thesis
    by blast
qed

text \<open>
  Claim C9. The stop flag is looked at once per block, in the loop condition before the
  next input block is read. When the flag is clear there and no device call fails, a
  signal arriving at any point of the iteration changes nothing but the flag: the same
  whole block is processed and played as without the signal, and the loop stops at the
  next test of the condition, before any further read. When the flag is already cleared
  at the test, the loop stops without touching a device.
\<close>

theorem C9_stop_flag_is_read_between_blocks:
  "(\<not> running s \<longrightarrow> stream_loop stereo dev s ts = (Stopped, s)) \<and>
   (running s \<and> \<not> io_fails dev t \<longrightarrow>
      (\<exists>s0 s'. iteration stereo dev (quiet t) s = (False, s0) \<and>
               iteration stereo dev t s = (False, s') \<and>
               s' = s0\<lparr>running := \<not> signalled t\<rparr> \<and>
               (\<exists>b. played s' = played s @ [b] \<and> length b = length (output_buf s)) \<and>
               (signalled t \<longrightarrow> stream_loop stereo dev s (t # ts) = (Stopped, s')) \<and>
               (\<not> signalled t \<longrightarrow>
                  stream_loop stereo dev s (t # ts) = stream_loop stereo dev s' ts)))"
proof (intro conjI impI)
  assume "\<not> running s"
  then show "stream_loop stereo dev s ts = (Stopped, s)" by (rule stream_loop_stopped)
next
  assume a: "running s \<and> \<not> io_fails dev t"
  have q: "io_fails dev (quiet t) = io_fails dev t"
    by (simp add: io_fails_def quiet_def)
  obtain brk s0 where it0: "iteration stereo dev (quiet t) s = (brk, s0)"
    by (cases "iteration stereo dev (quiet t) s")
  with a q iteration_fst [of stereo dev "quiet t" s] have "\<not> brk" by simp
  with it0 have it0: "iteration stereo dev (quiet t) s = (False, s0)" by simp
  let ?s' = "s0\<lparr>running := \<not> signalled t\<rparr>"
  have it: "iteration stereo dev t s = (False, ?s')"
    using a by (simp add: iteration_signal [of stereo dev t] it0)
  from iteration_continue(1) [OF it0] obtain s2 where
    f: "fetch_block dev (quiet t) s = Inr s2"
    and p: "played s0 = played s @ [output_buf (process_block stereo (quiet t) s2)]" by blast
  have len: "length (output_buf (process_block stereo (quiet t) s2)) = length (output_buf s)"
    using fetch_block_Inr(11) [OF f] by (simp add: process_block_length)
  have pl: "\<exists>b. played ?s' = played s @ [b] \<and> length b = length (output_buf s)"
    using p len by simp
  have stop: "stream_loop stereo dev s (t # ts) = (Stopped, ?s')" if "signalled t"
    using a it that by (simp add: stream_loop_stopped)
  have cont: "stream_loop stereo dev s (t # ts) = stream_loop stereo dev ?s' ts"
    if "\<not> signalled t"
    using a it by simp
  from it0 it pl stop cont
  show "\<exists>s0 s'. iteration stereo dev (quiet t) s = (False, s0) \<and>
               iteration stereo dev t s = (False, s') \<and>
               s' = s0\<lparr>running := \<not> signalled t\<rparr> \<and>
               (\<exists>b. played s' = played s @ [b] \<and> length b = length (output_buf s)) \<and>
               (signalled t \<longrightarrow> stream_loop stereo dev s (t # ts) = (Stopped, s')) \<and>
               (\<not> signalled t \<longrightarrow>
                  stream_loop stereo dev s (t # ts) = stream_loop stereo dev s' ts)"
    by blast
qed

text \<open>A signal during sample 5 of the first block of the freshly set up program: the
  block is played in full and the second tick is never used. With the flag cleared
  beforehand nothing is played.\<close>

theorem C9_witness:
  "running fresh_machine \<and> \<not> io_fails [] signal_tick \<and> signalled signal_tick \<and>
   fst (stream_loop 1 [] fresh_machine [signal_tick, good_tick]) = Stopped \<and>
   map length (played (snd (stream_loop 1 [] fresh_machine [signal_tick, good_tick])))
     = [BUFFER_SIZE] \<and>
   \<not> running (stop fresh_machine) \<and>
   stream_loop 1 [] (stop fresh_machine) [good_tick] = (Stopped, stop fresh_machine)"
proof -
  have nf: "\<not> io_fails [] signal_tick"
    by (simp add: io_fails_def signal_tick_def good_tick_def)
  have sg: "signalled signal_tick"
    by (simp add: signalled_def signal_tick_def in_iteration_def BUFFER_SIZE_def)
  have ns: "\<not> running (stop fresh_machine)" by (simp add: stop_def)
  from C9_stop_flag_is_read_between_blocks [of fresh_machine 1 "[]" "[good_tick]" signal_tick]
       fresh_running nf sg
  obtain s' b where "stream_loop 1 [] fresh_machine [signal_tick, good_tick] = (Stopped, s')"
    "played s' = played fresh_machine @ [b]" "length b = length (output_buf fresh_machine)"
    by blast
  moreover
  from C9_stop_flag_is_read_between_blocks [of "stop fresh_machine" 1 "[]" "[good_tick]" good_tick] ns
  have "stream_loop 1 [] (stop fresh_machine) [good_tick] = (Stopped, stop fresh_machine)"
    by blast
  ultimately show ?thesis
    using fresh_running nf sg ns by (simp add: fresh_played fresh_output_length)
qed

text \<open>
  Claim C10. For every configuration whose parameters violate a precondition of the
  constructors (with the constants of \<open>main\<close>: a sample rate that is not positive, or
  that puts the low-pass cutoff 15000 at or above the Nyquist frequency), a constructor
  detects it at construction: the oscillator's or the left low-pass filter's, the first
  ones called. Once the devices have opened, the program ends there with that
  construction failure; in no environment does it enter the streaming loop, and nothing
  is played (when a device fails to open it has returned 1 before any constructor is
  called). A configuration that violates none of the preconditions never ends in a
  construction failure.
\<close>

theorem C10_invalid_configuration_is_fatal_at_construction:
  assumes "getopt_loop default_config [] argv = (Inr c, err)"
  shows "(invalid_configuration c \<longrightarrow>
            (\<exists>e. (init_sine_oscillator Pilot_sample 19000 (of_int (sample_rate c)) = Inl e \<or>
                  init_lpf D Lpf_preemp_l Lpf_out_l 15000 5 (of_int (sample_rate c)) = Inl e) \<and>
                 (open_output w \<and> open_input w \<and> (audio_mpx_device c = [] \<or> open_mpx w) \<longrightarrow>
                    main_setup D w c = Inl (Construction_failure e) \<and>
                    fst (main D w argv) = Fatal e) \<and>
                 (fst (main D w argv) = Fatal e \<or> fst (main D w argv) = Returned 1) \<and>
                 fst (snd (main D w argv)) = [])) \<and>
         (\<not> invalid_configuration c \<longrightarrow> (\<forall>e. fst (main D w argv) \<noteq> Fatal e))"
proof -
  have m: "main D w argv =
             (case main_setup D w c of
                Inl (Device_failed msgs) \<Rightarrow> (Returned 1, [], err @ msgs)
              | Inl (Construction_failure e) \<Rightarrow> (Fatal e, [], err)
              | Inr s0 \<Rightarrow>
                  (case stream_loop (cfg_stereo c) (audio_mpx_device c) s0 (ticks w) of
                     (Stopped, s) \<Rightarrow> (Returned 0, played s, err @ stderr s)
                   | (Pending, s) \<Rightarrow> (Blocked, played s, err @ stderr s)))"
    using assms by (simp add: main_def)
  let ?open = "open_output w \<and> open_input w \<and> (audio_mpx_device c = [] \<or> open_mpx w)"
  have closed: "main D w argv = (Returned 1, [], err @ [Pa_simple_new_failed])" if "\<not> ?open"
    using that main_setup_devices [of w c D] by (auto simp: m)
  show ?thesis
  proof (intro conjI impI)
    assume "invalid_configuration c"
    then have low: "sample_rate c \<le> 30000" by (simp add: invalid_configuration_rate)
    define e where "e = (if sample_rate c \<le> 0 then Nonpositive_frequency_or_rate
                         else Cutoff_not_below_nyquist)"
    have detect: "init_sine_oscillator Pilot_sample 19000 (of_int (sample_rate c)) = Inl e \<or>
                  init_lpf D Lpf_preemp_l Lpf_out_l 15000 5 (of_int (sample_rate c)) = Inl e"
      using low by (auto simp: e_def init_sine_oscillator_def init_lpf_def)
    have fails: "main_setup D w c = Inl (Construction_failure e)" if "?open"
      using that low main_setup_nonpositive_rate [of w c D] main_setup_low_rate [of w c D]
      by (cases "sample_rate c \<le> 0") (auto simp: e_def)
    have fatal: "main D w argv = (Fatal e, [], err)" if "?open"
      using fails [OF that] by (simp add: m)
    have "fst (main D w argv) = Fatal e \<or> fst (main D w argv) = Returned 1"
      using fatal closed by (cases "?open") simp_all
    moreover have "fst (snd (main D w argv)) = []"
      using fatal closed by (cases "?open") simp_all
    ultimately
    show "\<exists>e. (init_sine_oscillator Pilot_sample 19000 (of_int (sample_rate c)) = Inl e \<or>
                init_lpf D Lpf_preemp_l Lpf_out_l 15000 5 (of_int (sample_rate c)) = Inl e) \<and>
               (open_output w \<and> open_input w \<and> (audio_mpx_device c = [] \<or> open_mpx w) \<longrightarrow>
                  main_setup D w c = Inl (Construction_failure e) \<and>
                  fst (main D w argv) = Fatal e) \<and>
               (fst (main D w argv) = Fatal e \<or> fst (main D w argv) = Returned 1) \<and>
               fst (snd (main D w argv)) = []"
      using detect fails fatal by (intro exI [of _ e]) simp
  next
    assume "\<not> invalid_configuration c"
    then have high: "30000 < sample_rate c" by (simp add: invalid_configuration_rate)
    show "\<forall>e. fst (main D w argv) \<noteq> Fatal e"
    proof (cases "?open")
      case True
      with main_setup_valid [of w c D] high obtain s0 where "main_setup D w c = Inr s0"
        by blast
      then show ?thesis
        by (simp add: m split: prod.splits loop_state.splits)
    next
      case False
      from closed [OF this] show ?thesis by simp
    qed
  qed
qed

text \<open>The option \<open>-S 20000\<close> with every device opening: the cutoff 15000 is above the
  Nyquist frequency 10000, and the program ends in the low-pass constructor. With no
  option the rate is 192000 and there is no construction failure.\<close>

theorem C10_witness:
  "getopt_loop default_config [] [Opt_S 20000]
     = (Inr (default_config\<lparr>sample_rate := 20000\<rparr>), []) \<and>
   invalid_configuration (default_config\<lparr>sample_rate := 20000\<rparr>) \<and>
   open_output calm_world \<and> open_input calm_world \<and>
   audio_mpx_device (default_config\<lparr>sample_rate := 20000\<rparr>) = [] \<and>
   fst (main plain_designer calm_world [Opt_S 20000]) = Fatal Cutoff_not_below_nyquist \<and>
   fst (snd (main plain_designer calm_world [Opt_S 20000])) = [] \<and>
   getopt_loop default_config [] [] = (Inr default_config, []) \<and>
   \<not> invalid_configuration default_config \<and>
   fst (main plain_designer calm_world []) \<noteq> Fatal Cutoff_not_below_nyquist"
proof -
  have g: "getopt_loop default_config [] [Opt_S 20000]
             = (Inr (default_config\<lparr>sample_rate := 20000\<rparr>), [])"
    by simp
  have i: "invalid_configuration (default_config\<lparr>sample_rate := 20000\<rparr>)"
    by (simp add: invalid_configuration_def)
  have o: "open_output calm_world" "open_input calm_world"
    by (simp_all add: calm_world_def)
  have d: "audio_mpx_device (default_config\<lparr>sample_rate := 20000\<rparr>) = []"
    by (simp add: default_config_def)
  from C10_invalid_configuration_is_fatal_at_construction [OF g, of plain_designer calm_world]
       i o d
  obtain e where
    e: "init_sine_oscillator Pilot_sample 19000
          (of_int (sample_rate (default_config\<lparr>sample_rate := 20000\<rparr>))) = Inl e \<or>
        init_lpf plain_designer Lpf_preemp_l Lpf_out_l 15000 5
          (of_int (sample_rate (default_config\<lparr>sample_rate := 20000\<rparr>))) = Inl e"
    and f: "fst (main plain_designer calm_world [Opt_S 20000]) = Fatal e"
    and p: "fst (snd (main plain_designer calm_world [Opt_S 20000])) = []"
    by blast
  from e have "e = Cutoff_not_below_nyquist"
    by (simp add: init_sine_oscillator_def init_lpf_def)
  with f have f': "fst (main plain_designer calm_world [Opt_S 20000]) = Fatal Cutoff_not_below_nyquist"
    by simp
  have g0: "getopt_loop default_config [] [] = (Inr default_config, [])" by simp
  have v: "\<not> invalid_configuration default_config"
    by (simp add: invalid_configuration_def default_config_def)
  from C10_invalid_configuration_is_fatal_at_construction [OF g0, of plain_designer calm_world] v
  have "fst (main plain_designer calm_world []) \<noteq> Fatal Cutoff_not_below_nyquist"
    by blast
  with g i o d f' p g0 v show ?thesis by blast
qed

end
